theory Spec2Isabelle
  imports Main "HOL-Library.Word"
begin

unbundle bit_operations_syntax

section \<open>Data model of \<^verbatim>\<open>neo/mame.go\<close>\<close>

type_synonym byte = "8 word"
type_synonym uint16 = "16 word"
type_synonym uint64 = "64 word"

text \<open>
  An \<^verbatim>\<open>io.Reader\<close> is modelled by the finite byte sequence it yields before
  reporting end of file; reading it never fails half way. The readers of one call are
  streams of their own: none is shared between two positions of the input, so that
  consuming one leaves the others as they were.
\<close>

type_synonym reader = "byte list"

subsection \<open>Word packing\<close>

text \<open>
  \<^verbatim>\<open>binary.LittleEndian.PutUint16(b, v)\<close> stores \<^verbatim>\<open>byte(v)\<close> and
  \<^verbatim>\<open>byte(v >> 8)\<close>; \<^verbatim>\<open>binary.LittleEndian.Uint16(b)\<close> is
  \<^verbatim>\<open>uint16(b[0]) | uint16(b[1])<<8\<close>.
\<close>

definition PutUint16 :: "uint16 \<Rightarrow> byte list" where
  "PutUint16 v = [ucast v, ucast (drop_bit 8 v)]"

definition Uint16 :: "byte \<Rightarrow> byte \<Rightarrow> uint16" where
  "Uint16 b0 b1 = ucast b0 OR push_bit 8 (ucast b1)"

text \<open>\<^verbatim>\<open>uint16SliceToBytes\<close>: every word, in order, as two bytes.\<close>

fun uint16SliceToBytes :: "uint16 list \<Rightarrow> byte list" where
  "uint16SliceToBytes [] = []"
| "uint16SliceToBytes (x # rom) = PutUint16 x @ uint16SliceToBytes rom"

text \<open>
  The unpacking loop of \<^verbatim>\<open>smaPReader\<close>: \<^verbatim>\<open>len(b)/2\<close> words, word
  \<open>i\<close> read from \<^verbatim>\<open>b[i*2 : (i+1)*2]\<close>; a trailing odd byte is dropped.
\<close>

fun bytesToUint16Slice :: "byte list \<Rightarrow> uint16 list" where
  "bytesToUint16Slice (b0 # b1 # b) = Uint16 b0 b1 # bytesToUint16Slice b"
| "bytesToUint16Slice _ = []"

subsection \<open>Failures\<close>

text \<open>
  A function of the source ends in one of three ways: it returns a value, it returns a
  non-nil \<^verbatim>\<open>error\<close>, or the Go run time stops it with a panic (here always the
  bounds check of an index or slice expression). The last two are kept apart.
\<close>

datatype go_error = EOF | ExternalError

datatype failure = Err go_error | Panic

definition reported :: "failure + 'a \<Rightarrow> bool" where
  "reported r = (case r of Inl (Err e) \<Rightarrow> True | _ \<Rightarrow> False)"

subsection \<open>Layout\<close>

definition oneTwentyEightKB :: nat where "oneTwentyEightKB = 131072"
definition oneMB :: nat where "oneMB = 1048576"
definition twoMB :: nat where "twoMB = 2097152"

record mameROM =
  filename :: string
  rom_size :: uint64
  crc :: "byte list"

record mameArea =
  area_size :: uint64
  rom :: "mameROM list"

text \<open>\<^verbatim>\<open>mameArea.padSize\<close>: the running maximum of the chip sizes, from 0.\<close>

definition padSize :: "mameArea \<Rightarrow> uint64" where
  "padSize a = foldl (\<lambda>pad r. if rom_size r > pad then rom_size r else pad) 0 (rom a)"

subsection \<open>Stream primitives\<close>

text \<open>
  \<^verbatim>\<open>io.CopyN(dst, src, n)\<close> on a source of fewer than \<open>n\<close> bytes returns
  \<^verbatim>\<open>io.EOF\<close>; otherwise it moves the first \<open>n\<close> bytes and leaves the rest in
  the source. The result is the pair (copied, rest of the source).
\<close>

definition CopyN :: "reader \<Rightarrow> nat \<Rightarrow> failure + (byte list \<times> reader)" where
  "CopyN src n = (if length src < n then Inl (Err EOF) else Inr (take n src, drop n src))"

text \<open>
  Modelled from the spec: \<^verbatim>\<open>plumbing.PaddedReader(r, n, fill)\<close> belongs to an
  imported library. The spec has a stream "padded at its end to padSize with fillByte".
  The library's reader yields \<open>n\<close> bytes in all, those of \<open>r\<close> first and the fill byte
  after them, so that a stream longer than \<open>n\<close> is cut to \<open>n\<close> bytes, and to nothing
  when \<open>n\<close> is at or below zero. The size is an \<^verbatim>\<open>int64\<close>.
\<close>

definition PaddedReader :: "reader \<Rightarrow> int \<Rightarrow> byte \<Rightarrow> reader" where
  "PaddedReader r n fill = take (nat n) r @ replicate (nat n - length r) fill"

text \<open>
  Functions of the package that this file calls and other files define. The interleaver
  returns the bytes its reader yields, or a failure, which is taken at the call; the
  decryption functions are the black boxes of the spec.
\<close>

record externals =
  interleaveROM :: "nat \<Rightarrow> reader list \<Rightarrow> failure + reader"
  cmc42GfxDecrypt :: "byte list \<Rightarrow> int \<Rightarrow> byte list"
  cmc50GfxDecrypt :: "byte list \<Rightarrow> int \<Rightarrow> byte list"
  cmcSfixDecrypt :: "byte list \<Rightarrow> int \<Rightarrow> byte list"
  cmc50M1Decrypt :: "byte list \<Rightarrow> byte list"

subsection \<open>\<^verbatim>\<open>commonPaddedReader\<close>\<close>

definition commonPaddedReader :: "mameArea \<Rightarrow> reader list \<Rightarrow> failure + byte list" where
  "commonPaddedReader a readers =
     Inr (concat (map (\<lambda>i. if int i < int (length readers) - 1
                            then PaddedReader (readers ! i) (sint (padSize a)) 0
                            else readers ! i)
                      [0..<length readers]))"

subsection \<open>\<^verbatim>\<open>commonCReader\<close>\<close>

definition commonCLoop_measure ::
  "((externals \<times> mameArea \<times> reader list \<times> nat \<times> reader list) \<times>
    (externals \<times> mameArea \<times> reader list \<times> nat \<times> reader list)) set" where
  "commonCLoop_measure = measure (\<lambda>(E, a, readers, i, intermediates). length readers - i)"

text \<open>
  The loop \<^verbatim>\<open>for i := 0; i < len(readers); i += 2\<close>. The index expression
  \<^verbatim>\<open>readers[i+1]\<close> panics when \<open>i + 1\<close> is the length.
\<close>

function commonCLoop ::
  "externals \<Rightarrow> mameArea \<Rightarrow> reader list \<Rightarrow> nat \<Rightarrow> reader list \<Rightarrow> failure + reader list" where
  "commonCLoop E a readers i intermediates =
     (if i < length readers then
        (if i + 1 < length readers then
           (case interleaveROM E 1 [readers ! i, readers ! (i + 1)] of
              Inl e \<Rightarrow> Inl e
            | Inr intermediate \<Rightarrow>
                commonCLoop E a readers (i + 2)
                  (intermediates @
                    [if int i < int (length readers) - 2
                     then PaddedReader intermediate (sint (padSize a * 2)) 0
                     else intermediate]))
         else Inl Panic)
      else Inr intermediates)"
  by pat_completeness auto
termination
  by (relation commonCLoop_measure) (auto simp: commonCLoop_measure_def)

definition commonCReader :: "externals \<Rightarrow> mameArea \<Rightarrow> reader list \<Rightarrow> failure + byte list" where
  "commonCReader E a readers =
     (case commonCLoop E a readers 0 [] of
        Inl e \<Rightarrow> Inl e
      | Inr intermediates \<Rightarrow> Inr (concat intermediates))"

subsection \<open>\<^verbatim>\<open>commonPReader\<close>\<close>

text \<open>
  A compiled pattern is modelled by its \<^verbatim>\<open>MatchString\<close> predicate; \<open>None\<close> is
  the nil pattern.
\<close>

type_synonym regexp = "(string \<Rightarrow> bool) option"

definition isPatch :: "regexp \<Rightarrow> mameROM \<Rightarrow> bool" where
  "isPatch re x = (case re of None \<Rightarrow> False | Some matchString \<Rightarrow> matchString (filename x))"

text \<open>
  The first loop, \<^verbatim>\<open>for j, x := range a.rom\<close>: the state is the chip index
  \<open>j\<close>, the write index \<open>i\<close>, the reader slice (compacted in place), the patch
  readers and the body chips. \<^verbatim>\<open>readers[j]\<close> panics when \<open>j\<close> is out of range.
\<close>

fun splitLoop ::
  "regexp \<Rightarrow> mameROM list \<Rightarrow> nat \<Rightarrow> nat \<Rightarrow> reader list \<Rightarrow> reader list \<Rightarrow> mameROM list \<Rightarrow>
   failure + (nat \<times> reader list \<times> reader list \<times> mameROM list)" where
  "splitLoop re [] j i readers patches roms = Inr (i, readers, patches, roms)"
| "splitLoop re (x # xs) j i readers patches roms =
     (if j < length readers then
        (if isPatch re x
         then splitLoop re xs (j + 1) i readers (patches @ [readers ! j]) roms
         else splitLoop re xs (j + 1) (i + 1) (readers[i := readers ! j]) patches (roms @ [x]))
      else Inl Panic)"

text \<open>
  The correction of the first body chip (lines 105 to 117): \<^verbatim>\<open>roms[0]\<close> panics
  on an empty body list.
\<close>

definition swapFirst :: "mameROM list \<Rightarrow> reader list \<Rightarrow> failure + reader list" where
  "swapFirst roms readers =
     (case roms of
        [] \<Rightarrow> Inl Panic
      | r0 # _ \<Rightarrow>
          if rom_size r0 = of_nat twoMB then
            (case readers of
               [] \<Rightarrow> Inl Panic
             | c0 # cs \<Rightarrow>
                 (case CopyN c0 oneMB of
                    Inl e \<Rightarrow> Inl e
                  | Inr (tmp, rest) \<Rightarrow> Inr ((rest @ tmp) # cs)))
          else Inr readers)"

definition commonPReader :: "mameArea \<Rightarrow> reader list \<Rightarrow> regexp \<Rightarrow> failure + byte list" where
  "commonPReader a readers re =
     (case splitLoop re (rom a) 0 0 readers [] [] of
        Inl e \<Rightarrow> Inl e
      | Inr (i, readers1, patches, roms) \<Rightarrow>
          (let patch = concat patches in
           case swapFirst roms (take i readers1) of
             Inl e \<Rightarrow> Inl e
           | Inr readers2 \<Rightarrow>
               (case CopyN (concat readers2) (length patch) of
                  Inl e \<Rightarrow> Inl e
                | Inr (discarded, reader) \<Rightarrow> Inr (patch @ reader))))"

text \<open>The two patterns of the source, \<^verbatim>\<open>\.ep\<close> and \<^verbatim>\<open>\.sp\<close>, match a
  file name that contains the literal text.\<close>

fun hasPrefix :: "string \<Rightarrow> string \<Rightarrow> bool" where
  "hasPrefix [] s = True"
| "hasPrefix (p # ps) [] = False"
| "hasPrefix (p # ps) (c # s) = (p = c \<and> hasPrefix ps s)"

fun containsText :: "string \<Rightarrow> string \<Rightarrow> bool" where
  "containsText p [] = (p = [])"
| "containsText p (c # s) = (hasPrefix p (c # s) \<or> containsText p s)"

definition re_ep :: regexp where "re_ep = Some (containsText ''.ep'')"
definition re_sp :: regexp where "re_sp = Some (containsText ''.sp'')"

subsection \<open>Bit permutations\<close>

text \<open>
  Modelled from the spec: \<^verbatim>\<open>bitswapInt\<close> and \<^verbatim>\<open>bitswapUint16\<close> are defined
  in another file of the package. The spec's \<^verbatim>\<open>BitPermute(value, order)\<close> takes
  the bit positions most significant result bit first: the result bit that the
  \<open>k\<close>-th entry of the order stands for is the input bit at that position.
\<close>

definition bitswapInt :: "nat \<Rightarrow> nat list \<Rightarrow> nat" where
  "bitswapInt v order = foldl (\<lambda>acc b. 2 * acc + of_bool (bit v b)) 0 order"

definition bitswapUint16 :: "uint16 \<Rightarrow> nat list \<Rightarrow> uint16" where
  "bitswapUint16 v order = foldl (\<lambda>acc b. 2 * acc + of_bool (bit v b)) 0 order"

subsection \<open>The SMA program reader and its three passes\<close>

text \<open>
  \<^verbatim>\<open>smaPReader\<close>: 0xc0000 zero bytes, then the chips, read as little-endian words.
\<close>

definition smaPReader :: "mameArea \<Rightarrow> reader list \<Rightarrow> failure + uint16 list" where
  "smaPReader a readers = Inr (bytesToUint16Slice (replicate 0xc0000 0 @ concat readers))"

text \<open>
  The data-line loop
  \<^verbatim>\<open>for i := 0; i < n; i++ { rom[i+0x080000] = bitswapUint16(rom[i+0x080000], ...) }\<close>.
  Every index expression is bounds-checked by the run time.
\<close>

definition dataLoop_measure ::
  "((nat list \<times> nat \<times> nat \<times> uint16 list) \<times> (nat list \<times> nat \<times> nat \<times> uint16 list)) set" where
  "dataLoop_measure = measure (\<lambda>(order, i, n, prg). n - i)"

function dataLoop :: "nat list \<Rightarrow> nat \<Rightarrow> nat \<Rightarrow> uint16 list \<Rightarrow> failure + uint16 list" where
  "dataLoop order i n prg =
     (if i < n then
        (if i + 0x080000 < length prg
         then dataLoop order (i + 1) n
                (prg[i + 0x080000 := bitswapUint16 (prg ! (i + 0x080000)) order])
         else Inl Panic)
      else Inr prg)"
  by pat_completeness auto
termination
  by (relation dataLoop_measure) (auto simp: dataLoop_measure_def)

text \<open>
  The address loop
  \<^verbatim>\<open>for i := 0; i < n; i++ { rom[i] = rom[base+bitswapInt(i, ...)] }\<close>.
\<close>

definition addrLoop_measure ::
  "((nat \<times> nat list \<times> nat \<times> nat \<times> uint16 list) \<times>
    (nat \<times> nat list \<times> nat \<times> nat \<times> uint16 list)) set" where
  "addrLoop_measure = measure (\<lambda>(base, order, i, n, prg). n - i)"

function addrLoop ::
  "nat \<Rightarrow> nat list \<Rightarrow> nat \<Rightarrow> nat \<Rightarrow> uint16 list \<Rightarrow> failure + uint16 list" where
  "addrLoop base order i n prg =
     (if i < n then
        (if base + bitswapInt i order < length prg \<and> i < length prg
         then addrLoop base order (i + 1) n (prg[i := prg ! (base + bitswapInt i order)])
         else Inl Panic)
      else Inr prg)"
  by pat_completeness auto
termination
  by (relation addrLoop_measure) (auto simp: addrLoop_measure_def)

text \<open>
  The block loop. \<^verbatim>\<open>copy(buf, src)\<close> copies as many elements as the shorter of
  the two holds; the slice expression \<^verbatim>\<open>rom[i+0x080000:]\<close> panics past the
  length. The inner loop is
  \<^verbatim>\<open>for j := 0; j < m; j++ { rom[i+j+0x080000] = buf[bitswapInt(j, ...)] }\<close>.
\<close>

definition copy :: "uint16 list \<Rightarrow> uint16 list \<Rightarrow> uint16 list" where
  "copy dst src = take (length dst) src @ drop (length src) dst"

definition blockInner_measure ::
  "((nat list \<times> uint16 list \<times> nat \<times> nat \<times> nat \<times> uint16 list) \<times>
    (nat list \<times> uint16 list \<times> nat \<times> nat \<times> nat \<times> uint16 list)) set" where
  "blockInner_measure = measure (\<lambda>(order, buf, i, j, m, prg). m - j)"

function blockInner ::
  "nat list \<Rightarrow> uint16 list \<Rightarrow> nat \<Rightarrow> nat \<Rightarrow> nat \<Rightarrow> uint16 list \<Rightarrow> failure + uint16 list" where
  "blockInner order buf i j m prg =
     (if j < m then
        (if bitswapInt j order < length buf \<and> i + j + 0x080000 < length prg
         then blockInner order buf i (j + 1) m
                (prg[i + j + 0x080000 := buf ! bitswapInt j order])
         else Inl Panic)
      else Inr prg)"
  by pat_completeness auto
termination
  by (relation blockInner_measure) (auto simp: blockInner_measure_def)

text \<open>
  The outer loop \<^verbatim>\<open>for i := 0; i < n; i += bs\<close>; the block size \<open>bs\<close> is a
  positive literal at every call, and the model stops at once on a zero step.
\<close>

definition blockLoop_measure ::
  "((nat list \<times> nat \<times> nat \<times> nat \<times> uint16 list) \<times>
    (nat list \<times> nat \<times> nat \<times> nat \<times> uint16 list)) set" where
  "blockLoop_measure = measure (\<lambda>(order, bs, i, n, prg). n - i)"

function blockLoop ::
  "nat list \<Rightarrow> nat \<Rightarrow> nat \<Rightarrow> nat \<Rightarrow> uint16 list \<Rightarrow> failure + uint16 list" where
  "blockLoop order bs i n prg =
     (if i < n \<and> 0 < bs then
        (if i + 0x080000 \<le> length prg then
           (case blockInner order (copy (replicate bs 0) (drop (i + 0x080000) prg)) i 0 bs prg of
              Inl e \<Rightarrow> Inl e
            | Inr prg' \<Rightarrow> blockLoop order bs (i + bs) n prg')
         else Inl Panic)
      else Inr prg)"
  by pat_completeness auto
termination
  by (relation blockLoop_measure) (auto simp: blockLoop_measure_def)

text \<open>The literal tables of the six SMA titles, as they stand in their \<^verbatim>\<open>read\<close> methods.\<close>

datatype smaTitle = Garou | Garouh | Kof2000 | Kof99 | Mslug3 | Mslug3a

fun dataOrder :: "smaTitle \<Rightarrow> nat list" where
  "dataOrder Garou = [13, 12, 14, 10, 8, 2, 3, 1, 5, 9, 11, 4, 15, 0, 6, 7]"
| "dataOrder Garouh = [14, 5, 1, 11, 7, 4, 10, 15, 3, 12, 8, 13, 0, 2, 9, 6]"
| "dataOrder Kof2000 = [12, 8, 11, 3, 15, 14, 7, 0, 10, 13, 6, 5, 9, 2, 1, 4]"
| "dataOrder Kof99 = [13, 7, 3, 0, 9, 4, 5, 6, 1, 12, 8, 14, 10, 11, 2, 15]"
| "dataOrder Mslug3 = [4, 11, 14, 3, 1, 13, 0, 7, 2, 8, 12, 15, 10, 9, 5, 6]"
| "dataOrder Mslug3a = [2, 11, 12, 14, 9, 3, 1, 4, 13, 7, 6, 8, 10, 15, 0, 5]"

fun addrBase :: "smaTitle \<Rightarrow> nat" where
  "addrBase Garou = 0x710000 div 2"
| "addrBase Garouh = 0x7f8000 div 2"
| "addrBase Kof2000 = 0x73a000 div 2"
| "addrBase Kof99 = 0x700000 div 2"
| "addrBase Mslug3 = 0x5d0000 div 2"
| "addrBase Mslug3a = 0x5d0000 div 2"

fun addrOrder :: "smaTitle \<Rightarrow> nat list" where
  "addrOrder Garou =
     [23, 22, 21, 20, 19, 18, 4, 5, 16, 14, 7, 9, 6, 13, 17, 15, 3, 1, 2, 12, 11, 8, 10, 0]"
| "addrOrder Garouh =
     [23, 22, 21, 20, 19, 18, 5, 16, 11, 2, 6, 7, 17, 3, 12, 8, 14, 4, 0, 9, 1, 10, 15, 13]"
| "addrOrder Kof2000 =
     [23, 22, 21, 20, 19, 18, 8, 4, 15, 13, 3, 14, 16, 2, 6, 17, 7, 12, 10, 0, 5, 11, 1, 9]"
| "addrOrder Kof99 =
     [23, 22, 21, 20, 19, 18, 11, 6, 14, 17, 16, 5, 8, 10, 12, 0, 4, 3, 2, 7, 9, 15, 13, 1]"
| "addrOrder Mslug3 =
     [23, 22, 21, 20, 19, 18, 15, 2, 1, 13, 3, 0, 9, 6, 16, 4, 11, 5, 7, 12, 17, 14, 10, 8]"
| "addrOrder Mslug3a =
     [23, 22, 21, 20, 19, 18, 1, 16, 14, 7, 17, 5, 8, 4, 15, 6, 3, 2, 0, 13, 10, 12, 9, 11]"

fun blockEnd :: "smaTitle \<Rightarrow> nat" where
  "blockEnd Garou = 0x800000 div 2"
| "blockEnd Garouh = 0x800000 div 2"
| "blockEnd Kof2000 = 0x63a000 div 2"
| "blockEnd Kof99 = 0x600000 div 2"
| "blockEnd Mslug3 = 0x800000 div 2"
| "blockEnd Mslug3a = 0x800000 div 2"

fun blockSize :: "smaTitle \<Rightarrow> nat" where
  "blockSize Garou = 0x8000 div 2"
| "blockSize Garouh = 0x8000 div 2"
| "blockSize Kof2000 = 0x800 div 2"
| "blockSize Kof99 = 0x800 div 2"
| "blockSize Mslug3 = 0x10000 div 2"
| "blockSize Mslug3a = 0x10000 div 2"

fun blockOrder :: "smaTitle \<Rightarrow> nat list" where
  "blockOrder Garou =
     [23, 22, 21, 20, 19, 18, 17, 16, 15, 14, 9, 4, 8, 3, 13, 6, 2, 7, 0, 12, 1, 11, 10, 5]"
| "blockOrder Garouh =
     [23, 22, 21, 20, 19, 18, 17, 16, 15, 14, 12, 8, 1, 7, 11, 3, 13, 10, 6, 9, 5, 4, 0, 2]"
| "blockOrder Kof2000 =
     [23, 22, 21, 20, 19, 18, 17, 16, 15, 14, 13, 12, 11, 10, 4, 1, 3, 8, 6, 2, 7, 0, 9, 5]"
| "blockOrder Kof99 =
     [23, 22, 21, 20, 19, 18, 17, 16, 15, 14, 13, 12, 11, 10, 6, 2, 4, 9, 8, 3, 1, 7, 0, 5]"
| "blockOrder Mslug3 =
     [23, 22, 21, 20, 19, 18, 17, 16, 15, 2, 11, 0, 14, 6, 4, 13, 8, 9, 3, 10, 7, 5, 12, 1]"
| "blockOrder Mslug3a =
     [23, 22, 21, 20, 19, 18, 17, 16, 15, 12, 0, 11, 3, 4, 13, 6, 8, 14, 7, 5, 2, 10, 9, 1]"

text \<open>The three passes of a title, each over the ranges its \<^verbatim>\<open>read\<close> method writes.\<close>

definition dataPass :: "smaTitle \<Rightarrow> uint16 list \<Rightarrow> failure + uint16 list" where
  "dataPass t prg = dataLoop (dataOrder t) 0 (0x800000 div 2) prg"

definition addrPass :: "smaTitle \<Rightarrow> uint16 list \<Rightarrow> failure + uint16 list" where
  "addrPass t prg = addrLoop (addrBase t) (addrOrder t) 0 (0xc0000 div 2) prg"

definition blockPass :: "smaTitle \<Rightarrow> uint16 list \<Rightarrow> failure + uint16 list" where
  "blockPass t prg = blockLoop (blockOrder t) (blockSize t) 0 (blockEnd t) prg"

definition andThen :: "failure + 'a \<Rightarrow> ('a \<Rightarrow> failure + 'b) \<Rightarrow> failure + 'b" where
  "andThen r k = (case r of Inl e \<Rightarrow> Inl e | Inr x \<Rightarrow> k x)"

text \<open>
  The order of the loops in each method: \<^verbatim>\<open>garou\<close>, \<^verbatim>\<open>garouh\<close>,
  \<^verbatim>\<open>mslug3\<close> and \<^verbatim>\<open>mslug3a\<close> run the address loop second and the block loop
  third; \<^verbatim>\<open>kof2000\<close> and \<^verbatim>\<open>kof99\<close> run the block loop second and the address
  loop third.
\<close>

fun smaDescramble :: "smaTitle \<Rightarrow> uint16 list \<Rightarrow> failure + uint16 list" where
  "smaDescramble Garou prg =
     andThen (andThen (dataPass Garou prg) (addrPass Garou)) (blockPass Garou)"
| "smaDescramble Garouh prg =
     andThen (andThen (dataPass Garouh prg) (addrPass Garouh)) (blockPass Garouh)"
| "smaDescramble Kof2000 prg =
     andThen (andThen (dataPass Kof2000 prg) (blockPass Kof2000)) (addrPass Kof2000)"
| "smaDescramble Kof99 prg =
     andThen (andThen (dataPass Kof99 prg) (blockPass Kof99)) (addrPass Kof99)"
| "smaDescramble Mslug3 prg =
     andThen (andThen (dataPass Mslug3 prg) (addrPass Mslug3)) (blockPass Mslug3)"
| "smaDescramble Mslug3a prg =
     andThen (andThen (dataPass Mslug3a prg) (addrPass Mslug3a)) (blockPass Mslug3a)"

text \<open>The program area of an SMA title: expand, descramble, repack.\<close>

definition smaProgram :: "smaTitle \<Rightarrow> mameArea \<Rightarrow> reader list \<Rightarrow> failure + byte list" where
  "smaProgram t a readers =
     andThen (andThen (smaPReader a readers) (smaDescramble t))
       (\<lambda>prg. Inr (uint16SliceToBytes prg))"

subsection \<open>Areas, files and the \<^verbatim>\<open>read\<close> methods\<close>

text \<open>
  Modelled from the spec: the area constants and \<^verbatim>\<open>Areas\<close> are declared in
  another file of the package. The spec fixes the set of areas (program, fix plane,
  sound CPU, sample regions, graphics plane); the methods name \<^verbatim>\<open>P\<close>,
  \<^verbatim>\<open>S\<close>, \<^verbatim>\<open>M\<close>, \<^verbatim>\<open>V1\<close> and \<^verbatim>\<open>C\<close>. The order below is the
  order in which the loop \<^verbatim>\<open>for i := 0; i < Areas; i++\<close> visits them.
\<close>

datatype area = P | S | M | V1 | V2 | C

definition Areas :: "area list" where
  "Areas = [P, S, M, V1, V2, C]"

record mameGame =
  parent :: string
  area :: "area \<Rightarrow> mameArea"

text \<open>Of \<^verbatim>\<open>File\<close> the methods touch the array \<^verbatim>\<open>ROM\<close> only.\<close>

record File =
  ROM :: "area \<Rightarrow> byte list"

definition setROM :: "File \<Rightarrow> area \<Rightarrow> byte list \<Rightarrow> File" where
  "setROM f i b = f\<lparr>ROM := (ROM f)(i := b)\<rparr>"

definition bangbeadGfxKey :: int where "bangbeadGfxKey = 0xf8"
definition ganryuGfxKey :: int where "ganryuGfxKey = 0x07"
definition garouGfxKey :: int where "garouGfxKey = 0x06"
definition kof99GfxKey :: int where "kof99GfxKey = 0x00"
definition mslug3GfxKey :: int where "mslug3GfxKey = 0xad"
definition nitdGfxKey :: int where "nitdGfxKey = 0xff"
definition preisle2GfxKey :: int where "preisle2GfxKey = 0x9f"
definition s1945pGfxKey :: int where "s1945pGfxKey = 0x05"
definition sengoku3GfxKey :: int where "sengoku3GfxKey = 0xfe"
definition zupapaGfxKey :: int where "zupapaGfxKey = 0xbd"
definition kof2000GfxKey :: int where "kof2000GfxKey = 0x00"
definition kof2001GfxKey :: int where "kof2001GfxKey = 0x1e"
definition jockeygpGfxKey :: int where "jockeygpGfxKey = 0xac"

text \<open>
  A method runs the areas in order and returns at the first failure; a failed call has
  no image. \<open>store i r f\<close> is the statement
  \<^verbatim>\<open>if f.ROM[i], err = r; err != nil { return err }\<close>.
\<close>

fun areaLoop :: "(area \<Rightarrow> File \<Rightarrow> failure + File) \<Rightarrow> area list \<Rightarrow> File \<Rightarrow> failure + File" where
  "areaLoop step [] f = Inr f"
| "areaLoop step (i # rest) f =
     (case step i f of Inl e \<Rightarrow> Inl e | Inr f' \<Rightarrow> areaLoop step rest f')"

definition store :: "area \<Rightarrow> failure + byte list \<Rightarrow> File \<Rightarrow> failure + File" where
  "store i r f = (case r of Inl e \<Rightarrow> Inl e | Inr b \<Rightarrow> Inr (setROM f i b))"

text \<open>
  The fix plane of the CMC families:
  \<^verbatim>\<open>f.ROM[S] = cmcSfixDecrypt(f.ROM[C], int(g.area[S].size))\<close>, the conversion to
  \<^verbatim>\<open>int\<close> read at 64 bits.
\<close>

definition deriveS :: "externals \<Rightarrow> mameGame \<Rightarrow> File \<Rightarrow> File" where
  "deriveS E g f = setROM f S (cmcSfixDecrypt E (ROM f C) (sint (area_size (area g S))))"

definition common_step ::
  "externals \<Rightarrow> mameGame \<Rightarrow> (area \<Rightarrow> reader list) \<Rightarrow> area \<Rightarrow> File \<Rightarrow> failure + File" where
  "common_step E g readers i f =
     (case i of
        P \<Rightarrow> store P (commonPReader (area g P) (readers P) re_ep) f
      | C \<Rightarrow> store C (commonCReader E (area g C) (readers C)) f
      | _ \<Rightarrow> store i (commonPaddedReader (area g i) (readers i)) f)"

definition commonCMC42_step ::
  "externals \<Rightarrow> mameGame \<Rightarrow> (area \<Rightarrow> reader list) \<Rightarrow> int \<Rightarrow> area \<Rightarrow> File \<Rightarrow> failure + File" where
  "commonCMC42_step E g readers xorKey i f =
     (case i of
        P \<Rightarrow> store P (commonPReader (area g P) (readers P) re_ep) f
      | S \<Rightarrow> Inr f
      | C \<Rightarrow>
          (case commonCReader E (area g C) (readers C) of
             Inl e \<Rightarrow> Inl e
           | Inr b \<Rightarrow> Inr (deriveS E g (setROM f C (cmc42GfxDecrypt E b xorKey))))
      | _ \<Rightarrow> store i (commonPaddedReader (area g i) (readers i)) f)"

definition commonCMC42Reader ::
  "externals \<Rightarrow> File \<Rightarrow> mameGame \<Rightarrow> (area \<Rightarrow> reader list) \<Rightarrow> int \<Rightarrow> failure + File" where
  "commonCMC42Reader E f g readers xorKey = areaLoop (commonCMC42_step E g readers xorKey) Areas f"

definition commonCMC50_step ::
  "externals \<Rightarrow> mameGame \<Rightarrow> (area \<Rightarrow> reader list) \<Rightarrow> int \<Rightarrow> area \<Rightarrow> File \<Rightarrow> failure + File" where
  "commonCMC50_step E g readers xorKey i f =
     (case i of
        P \<Rightarrow> store P (commonPReader (area g P) (readers P) re_ep) f
      | S \<Rightarrow> Inr f
      | M \<Rightarrow>
          (case commonPaddedReader (area g M) (readers M) of
             Inl e \<Rightarrow> Inl e
           | Inr b \<Rightarrow> Inr (setROM f M (cmc50M1Decrypt E b)))
      | C \<Rightarrow>
          (case commonCReader E (area g C) (readers C) of
             Inl e \<Rightarrow> Inl e
           | Inr b \<Rightarrow> Inr (deriveS E g (setROM f C (cmc50GfxDecrypt E b xorKey))))
      | _ \<Rightarrow> store i (commonPaddedReader (area g i) (readers i)) f)"

definition commonCMC50Reader ::
  "externals \<Rightarrow> File \<Rightarrow> mameGame \<Rightarrow> (area \<Rightarrow> reader list) \<Rightarrow> int \<Rightarrow> failure + File" where
  "commonCMC50Reader E f g readers xorKey = areaLoop (commonCMC50_step E g readers xorKey) Areas f"

text \<open>
  The methods of \<^verbatim>\<open>garou\<close>, \<^verbatim>\<open>garouh\<close>, \<^verbatim>\<open>kof99\<close>, \<^verbatim>\<open>mslug3\<close> and
  \<^verbatim>\<open>mslug3a\<close> are the CMC42 loop with the SMA program area in the place of
  \<^verbatim>\<open>commonPReader\<close>; they differ in their tables and key. The method of
  \<^verbatim>\<open>kof2000\<close> is the CMC50 loop changed in the same way.
\<close>

definition smaCMC42_step ::
  "externals \<Rightarrow> smaTitle \<Rightarrow> int \<Rightarrow> mameGame \<Rightarrow> (area \<Rightarrow> reader list) \<Rightarrow> area \<Rightarrow> File \<Rightarrow>
   failure + File" where
  "smaCMC42_step E t xorKey g readers i f =
     (case i of
        P \<Rightarrow> store P (smaProgram t (area g P) (readers P)) f
      | S \<Rightarrow> Inr f
      | C \<Rightarrow>
          (case commonCReader E (area g C) (readers C) of
             Inl e \<Rightarrow> Inl e
           | Inr b \<Rightarrow> Inr (deriveS E g (setROM f C (cmc42GfxDecrypt E b xorKey))))
      | _ \<Rightarrow> store i (commonPaddedReader (area g i) (readers i)) f)"

definition kof2000_step ::
  "externals \<Rightarrow> mameGame \<Rightarrow> (area \<Rightarrow> reader list) \<Rightarrow> area \<Rightarrow> File \<Rightarrow> failure + File" where
  "kof2000_step E g readers i f =
     (case i of
        P \<Rightarrow> store P (smaProgram Kof2000 (area g P) (readers P)) f
      | S \<Rightarrow> Inr f
      | M \<Rightarrow>
          (case commonPaddedReader (area g M) (readers M) of
             Inl e \<Rightarrow> Inl e
           | Inr b \<Rightarrow> Inr (setROM f M (cmc50M1Decrypt E b)))
      | C \<Rightarrow>
          (case commonCReader E (area g C) (readers C) of
             Inl e \<Rightarrow> Inl e
           | Inr b \<Rightarrow> Inr (deriveS E g (setROM f C (cmc50GfxDecrypt E b kof2000GfxKey))))
      | _ \<Rightarrow> store i (commonPaddedReader (area g i) (readers i)) f)"

text \<open>
  Three methods that differ from the default one in a single place: \<^verbatim>\<open>fightfeva\<close>
  has the pattern \<^verbatim>\<open>\.sp\<close>, \<^verbatim>\<open>kof95a\<close> the nil pattern, and
  \<^verbatim>\<open>pbobblenb\<close> puts two megabytes of zeros before its \<^verbatim>\<open>V1\<close> area.
\<close>

definition fightfeva_step ::
  "externals \<Rightarrow> mameGame \<Rightarrow> (area \<Rightarrow> reader list) \<Rightarrow> area \<Rightarrow> File \<Rightarrow> failure + File" where
  "fightfeva_step E g readers i f =
     (case i of
        P \<Rightarrow> store P (commonPReader (area g P) (readers P) re_sp) f
      | C \<Rightarrow> store C (commonCReader E (area g C) (readers C)) f
      | _ \<Rightarrow> store i (commonPaddedReader (area g i) (readers i)) f)"

definition kof95a_step ::
  "externals \<Rightarrow> mameGame \<Rightarrow> (area \<Rightarrow> reader list) \<Rightarrow> area \<Rightarrow> File \<Rightarrow> failure + File" where
  "kof95a_step E g readers i f =
     (case i of
        P \<Rightarrow> store P (commonPReader (area g P) (readers P) None) f
      | C \<Rightarrow> store C (commonCReader E (area g C) (readers C)) f
      | _ \<Rightarrow> store i (commonPaddedReader (area g i) (readers i)) f)"

definition pbobblenb_step ::
  "externals \<Rightarrow> mameGame \<Rightarrow> (area \<Rightarrow> reader list) \<Rightarrow> area \<Rightarrow> File \<Rightarrow> failure + File" where
  "pbobblenb_step E g readers i f =
     (case i of
        P \<Rightarrow> store P (commonPReader (area g P) (readers P) re_ep) f
      | C \<Rightarrow> store C (commonCReader E (area g C) (readers C)) f
      | V1 \<Rightarrow>
          (case commonPaddedReader (area g V1) (readers V1) of
             Inl e \<Rightarrow> Inl e
           | Inr b \<Rightarrow> Inr (setROM f V1 (replicate twoMB 0 @ b)))
      | _ \<Rightarrow> store i (commonPaddedReader (area g i) (readers i)) f)"

text \<open>
  The reader types and their methods. The types whose methods rest on the other
  interleaving readers of the file (\<^verbatim>\<open>dragonsh\<close>, \<^verbatim>\<open>gpilotsp\<close>,
  \<^verbatim>\<open>kotm2\<close>, \<^verbatim>\<open>kotm2p\<close>, \<^verbatim>\<open>viewpoin\<close>) are left out.
\<close>

datatype gameReader =
    common | bangbead | fightfeva | ganryu | garou | garouh | kof2000 | kof2000n | kof2001
  | kof95a | kof99 | kof99ka | jockeygp | mslug3 | mslug3a | mslug3h | nitd | pbobblenb
  | preisle2 | s1945p | sengoku3 | zupapa

fun read ::
  "gameReader \<Rightarrow> externals \<Rightarrow> File \<Rightarrow> mameGame \<Rightarrow> (area \<Rightarrow> reader list) \<Rightarrow> failure + File" where
  "read common E f g readers = areaLoop (common_step E g readers) Areas f"
| "read bangbead E f g readers = commonCMC42Reader E f g readers bangbeadGfxKey"
| "read fightfeva E f g readers = areaLoop (fightfeva_step E g readers) Areas f"
| "read ganryu E f g readers = commonCMC42Reader E f g readers ganryuGfxKey"
| "read garou E f g readers = areaLoop (smaCMC42_step E Garou garouGfxKey g readers) Areas f"
| "read garouh E f g readers = areaLoop (smaCMC42_step E Garouh garouGfxKey g readers) Areas f"
| "read kof2000 E f g readers = areaLoop (kof2000_step E g readers) Areas f"
| "read kof2000n E f g readers = commonCMC50Reader E f g readers kof2000GfxKey"
| "read kof2001 E f g readers = commonCMC50Reader E f g readers kof2001GfxKey"
| "read kof95a E f g readers = areaLoop (kof95a_step E g readers) Areas f"
| "read kof99 E f g readers = areaLoop (smaCMC42_step E Kof99 kof99GfxKey g readers) Areas f"
| "read kof99ka E f g readers = commonCMC42Reader E f g readers kof99GfxKey"
| "read jockeygp E f g readers = commonCMC50Reader E f g readers jockeygpGfxKey"
| "read mslug3 E f g readers = areaLoop (smaCMC42_step E Mslug3 mslug3GfxKey g readers) Areas f"
| "read mslug3a E f g readers = areaLoop (smaCMC42_step E Mslug3a mslug3GfxKey g readers) Areas f"
| "read mslug3h E f g readers = commonCMC42Reader E f g readers mslug3GfxKey"
| "read nitd E f g readers = commonCMC42Reader E f g readers nitdGfxKey"
| "read pbobblenb E f g readers = areaLoop (pbobblenb_step E g readers) Areas f"
| "read preisle2 E f g readers = commonCMC42Reader E f g readers preisle2GfxKey"
| "read s1945p E f g readers = commonCMC42Reader E f g readers s1945pGfxKey"
| "read sengoku3 E f g readers = commonCMC42Reader E f g readers sengoku3GfxKey"
| "read zupapa E f g readers = commonCMC42Reader E f g readers zupapaGfxKey"

text \<open>The reader types of the CMC42 and CMC50 families, the SMA titles among them.\<close>

definition cmcFamily :: "gameReader list" where
  "cmcFamily =
     [bangbead, ganryu, garou, garouh, kof2000, kof2000n, kof2001, kof99, kof99ka, jockeygp,
      mslug3, mslug3a, mslug3h, nitd, preisle2, s1945p, sengoku3, zupapa]"

subsection \<open>Reference descriptions of the read methods\<close>

text \<open>
  What each method calls, read off the methods one by one and compared with
  \<open>read\<close> below: the SMA title of a reader type, if it has one; the pattern it passes
  to \<^verbatim>\<open>commonPReader\<close>; its program-area reader; and what it does to the bytes of
  \<^verbatim>\<open>commonCReader\<close> before it stores them as the graphics area (the CMC42 titles
  decrypt them with their key, the CMC50 titles likewise, the other methods store them
  as they are).
\<close>

fun smaTitleOf :: "gameReader \<Rightarrow> smaTitle option" where
  "smaTitleOf garou = Some Garou"
| "smaTitleOf garouh = Some Garouh"
| "smaTitleOf kof2000 = Some Kof2000"
| "smaTitleOf kof99 = Some Kof99"
| "smaTitleOf mslug3 = Some Mslug3"
| "smaTitleOf mslug3a = Some Mslug3a"
| "smaTitleOf _ = None"

fun patternOf :: "gameReader \<Rightarrow> regexp" where
  "patternOf fightfeva = re_sp"
| "patternOf kof95a = None"
| "patternOf _ = re_ep"

definition programReader :: "gameReader \<Rightarrow> mameArea \<Rightarrow> reader list \<Rightarrow> failure + byte list" where
  "programReader r a readers =
     (case smaTitleOf r of
        Some t \<Rightarrow> smaProgram t a readers
      | None \<Rightarrow> commonPReader a readers (patternOf r))"

fun gfxDecrypt :: "externals \<Rightarrow> gameReader \<Rightarrow> byte list \<Rightarrow> byte list" where
  "gfxDecrypt E bangbead b = cmc42GfxDecrypt E b bangbeadGfxKey"
| "gfxDecrypt E ganryu b = cmc42GfxDecrypt E b ganryuGfxKey"
| "gfxDecrypt E garou b = cmc42GfxDecrypt E b garouGfxKey"
| "gfxDecrypt E garouh b = cmc42GfxDecrypt E b garouGfxKey"
| "gfxDecrypt E kof2000 b = cmc50GfxDecrypt E b kof2000GfxKey"
| "gfxDecrypt E kof2000n b = cmc50GfxDecrypt E b kof2000GfxKey"
| "gfxDecrypt E kof2001 b = cmc50GfxDecrypt E b kof2001GfxKey"
| "gfxDecrypt E kof99 b = cmc42GfxDecrypt E b kof99GfxKey"
| "gfxDecrypt E kof99ka b = cmc42GfxDecrypt E b kof99GfxKey"
| "gfxDecrypt E jockeygp b = cmc50GfxDecrypt E b jockeygpGfxKey"
| "gfxDecrypt E mslug3 b = cmc42GfxDecrypt E b mslug3GfxKey"
| "gfxDecrypt E mslug3a b = cmc42GfxDecrypt E b mslug3GfxKey"
| "gfxDecrypt E mslug3h b = cmc42GfxDecrypt E b mslug3GfxKey"
| "gfxDecrypt E nitd b = cmc42GfxDecrypt E b nitdGfxKey"
| "gfxDecrypt E preisle2 b = cmc42GfxDecrypt E b preisle2GfxKey"
| "gfxDecrypt E s1945p b = cmc42GfxDecrypt E b s1945pGfxKey"
| "gfxDecrypt E sengoku3 b = cmc42GfxDecrypt E b sengoku3GfxKey"
| "gfxDecrypt E zupapa b = cmc42GfxDecrypt E b zupapaGfxKey"
| "gfxDecrypt E _ b = b"

subsection \<open>Stand-ins for running the readers\<close>

text \<open>
  To run the readers on concrete inputs the external functions need values. The
  interleaver below does what the spec's \<^verbatim>\<open>InterleaveBytes\<close> does for two
  streams of equal length at unit 1 and reports an error otherwise; the decryption
  stand-ins keep the lengths the spec states and nothing else.
\<close>

fun alternate :: "reader \<Rightarrow> reader \<Rightarrow> reader" where
  "alternate (x # xs) (y # ys) = x # y # alternate xs ys"
| "alternate _ _ = []"

definition pairInterleave :: "nat \<Rightarrow> reader list \<Rightarrow> failure + reader" where
  "pairInterleave unit rs =
     (case rs of
        [x, y] \<Rightarrow> if unit = 1 \<and> length x = length y then Inr (alternate x y)
                  else Inl (Err ExternalError)
      | _ \<Rightarrow> Inl (Err ExternalError))"

definition standIns :: externals where
  "standIns =
     \<lparr>interleaveROM = pairInterleave,
      cmc42GfxDecrypt = (\<lambda>b xorKey. map (\<lambda>x. x XOR of_int xorKey) b),
      cmc50GfxDecrypt = (\<lambda>b xorKey. map (\<lambda>x. x XOR of_int xorKey) b),
      cmcSfixDecrypt = (\<lambda>b n. take (nat n) (b @ replicate (nat n) 0)),
      cmc50M1Decrypt = (\<lambda>b. b)\<rparr>"

subsection \<open>Reference descriptions of the patched concatenation\<close>

text \<open>
  The chips of an area paired with their readers, split by the pattern: the body chips
  and the readers of the patch chips, each in the order of the chip list. They describe
  what \<^verbatim>\<open>commonPReader\<close> is meant to compute and are compared with it below.
\<close>

definition bodyChips :: "regexp \<Rightarrow> mameROM list \<Rightarrow> reader list \<Rightarrow> (mameROM \<times> reader) list" where
  "bodyChips re xs readers = filter (\<lambda>(x, r). \<not> isPatch re x) (zip xs readers)"

definition patchReaders :: "regexp \<Rightarrow> mameROM list \<Rightarrow> reader list \<Rightarrow> reader list" where
  "patchReaders re xs readers = map snd (filter (\<lambda>(x, r). isPatch re x) (zip xs readers))"

text \<open>
  The patch buffer, and the body concatenation after the correction of a first body chip
  that declares two megabytes.
\<close>

definition patchBytes :: "regexp \<Rightarrow> mameArea \<Rightarrow> reader list \<Rightarrow> byte list" where
  "patchBytes re a readers = concat (patchReaders re (rom a) readers)"

definition correctedBody :: "regexp \<Rightarrow> mameArea \<Rightarrow> reader list \<Rightarrow> byte list" where
  "correctedBody re a readers =
     (case bodyChips re (rom a) readers of
        [] \<Rightarrow> []
      | (r0, c0) # rest \<Rightarrow>
          (if rom_size r0 = of_nat twoMB then drop oneMB c0 @ take oneMB c0 else c0) @
          concat (map snd rest))"

subsection \<open>Inputs for the examples\<close>

text \<open>Small layouts and streams on which the readers are run below.\<close>

definition noFile :: File where
  "noFile = \<lparr>ROM = (\<lambda>i. [])\<rparr>"

definition noArea :: mameArea where
  "noArea = \<lparr>area_size = 0, rom = []\<rparr>"

definition chip :: "string \<Rightarrow> uint64 \<Rightarrow> mameROM" where
  "chip name n = \<lparr>filename = name, rom_size = n, crc = []\<rparr>"

definition demoGame :: mameGame where
  "demoGame =
     \<lparr>parent = [],
      area = (\<lambda>i. noArea)
        (P := \<lparr>area_size = 2, rom = [chip ''demo.p1'' 2]\<rparr>,
         S := \<lparr>area_size = 3, rom = [chip ''demo.s1'' 3]\<rparr>,
         C := \<lparr>area_size = 4, rom = [chip ''demo.c1'' 2, chip ''demo.c2'' 2]\<rparr>)\<rparr>"

definition demoReaders :: "area \<Rightarrow> reader list" where
  "demoReaders = (\<lambda>i. [])(P := [[1, 2]], S := [[9, 9, 9]], C := [[3, 4], [5, 6]])"



definition noGame :: mameGame where
  "noGame = \<lparr>parent = [], area = (\<lambda>i. noArea)\<rparr>"

definition noReaders :: "area \<Rightarrow> reader list" where
  "noReaders = (\<lambda>i. [])"

definition smaDemoGame :: mameGame where
  "smaDemoGame =
     \<lparr>parent = [],
      area = (\<lambda>i. noArea)
        (P := \<lparr>area_size = 0x840000, rom = [chip ''demo.neo-sma'' 0x840000]\<rparr>,
         S := \<lparr>area_size = 3, rom = []\<rparr>,
         C := \<lparr>area_size = 4, rom = [chip ''demo.c1'' 2, chip ''demo.c2'' 2]\<rparr>)\<rparr>"

definition smaDemoReaders :: "area \<Rightarrow> reader list" where
  "smaDemoReaders = (\<lambda>i. [])(P := [replicate 0x840000 0], C := [[3, 4], [5, 6]])"



text \<open>
  The loop equations are unfolded one step at a time, by hand.
\<close>

declare dataLoop.simps [simp del] addrLoop.simps [simp del] blockInner.simps [simp del]
  blockLoop.simps [simp del] commonCLoop.simps [simp del]

section \<open>Word packing round trip\<close>

lemma Uint16_PutUint16: "PutUint16 v = [b0, b1] \<Longrightarrow> Uint16 b0 b1 = v"
  unfolding PutUint16_def Uint16_def
  by (auto intro!: bit_eqI simp: bit_simps)

lemma PutUint16_Uint16: "PutUint16 (Uint16 b0 b1) = [b0, b1]"
  unfolding PutUint16_def Uint16_def
proof -
  have hi: "\<not> bit b0 (8 + n)" for n
    using bit_imp_le_length [of b0 "8 + n"] by auto
  show "[ucast (ucast b0 OR push_bit 8 (ucast b1 :: uint16)), ucast (drop_bit 8 (ucast b0 OR push_bit 8 (ucast b1 :: uint16)))] = [b0, b1]"
    by (auto intro!: bit_eqI simp: bit_simps hi)
qed

lemma unpack_pack: "bytesToUint16Slice (uint16SliceToBytes ws) = ws"
proof (induction ws)
  case Nil
  show ?case by simp
next
  case (Cons w ws)
  have "PutUint16 w = [ucast w, ucast (drop_bit 8 w)]"
    by (simp add: PutUint16_def)
  with Cons show ?case
    by (simp add: Uint16_PutUint16)
qed

lemma pack_unpack: "even (length b) \<Longrightarrow> uint16SliceToBytes (bytesToUint16Slice b) = b"
  by (induction b rule: bytesToUint16Slice.induct) (simp_all add: PutUint16_Uint16)

text \<open>
  C7. Unpacking an even-length byte sequence into little-endian 16-bit words and
  repacking it with \<^verbatim>\<open>uint16SliceToBytes\<close> gives the byte sequence back, and
  packing any word sequence and unpacking it gives the word sequence back.
\<close>

theorem word_packing_round_trip:
  "(even (length b) \<longrightarrow> uint16SliceToBytes (bytesToUint16Slice b) = b) \<and>
   bytesToUint16Slice (uint16SliceToBytes ws) = ws"
  by (simp add: pack_unpack unpack_pack)

theorem word_packing_round_trip_witness:
  "even (length [0x34, 0x12, 0xCD, 0xAB :: byte]) \<and>
   bytesToUint16Slice [0x34, 0x12, 0xCD, 0xAB] = [0x1234, 0xABCD] \<and>
   uint16SliceToBytes (bytesToUint16Slice [0x34, 0x12, 0xCD, 0xAB]) = [0x34, 0x12, 0xCD, 0xAB] \<and>
   bytesToUint16Slice (uint16SliceToBytes [0x1234, 0xABCD]) = [0x1234, 0xABCD]"
  using word_packing_round_trip [of "[0x34, 0x12, 0xCD, 0xAB]" "[0x1234, 0xABCD]"]
  by (simp add: Uint16_def)


section \<open>The patched concatenation\<close>

lemma splitLoop_length:
  "splitLoop re xs j i rd patches roms = Inr (i', rd', patches', roms') \<Longrightarrow> length rd' = length rd"
  by (induction xs arbitrary: j i rd patches roms) (auto split: if_splits)

lemma splitLoop_Panic:
  "length rd < j + length xs \<Longrightarrow> j \<le> length rd \<Longrightarrow>
   splitLoop re xs j i rd patches roms = Inl Panic"
  by (induction xs arbitrary: j i rd patches roms) auto

lemma splitLoop_Inr:
  "j + length xs \<le> length rd \<Longrightarrow> i \<le> j \<Longrightarrow>
   \<exists>rd'. splitLoop re xs j i rd patches roms =
           Inr (i + length (bodyChips re xs (drop j rd)), rd',
                patches @ patchReaders re xs (drop j rd),
                roms @ map fst (bodyChips re xs (drop j rd))) \<and>
         take (i + length (bodyChips re xs (drop j rd))) rd' =
           take i rd @ map snd (bodyChips re xs (drop j rd))"
proof (induction xs arbitrary: j i rd patches roms)
  case Nil
  show ?case by (simp add: bodyChips_def patchReaders_def)
next
  case (Cons x xs)
  from Cons.prems have j: "j < length rd" and i: "i < length rd" by auto
  have dj: "drop j rd = rd ! j # drop (Suc j) rd"
    using j by (simp add: Cons_nth_drop_Suc)
  show ?case
  proof (cases "isPatch re x")
    case True
    from Cons.IH [of "Suc j" rd i "patches @ [rd ! j]" roms] Cons.prems
    obtain rd' where
      "splitLoop re xs (Suc j) i rd (patches @ [rd ! j]) roms =
         Inr (i + length (bodyChips re xs (drop (Suc j) rd)), rd',
              (patches @ [rd ! j]) @ patchReaders re xs (drop (Suc j) rd),
              roms @ map fst (bodyChips re xs (drop (Suc j) rd)))"
      "take (i + length (bodyChips re xs (drop (Suc j) rd))) rd' =
         take i rd @ map snd (bodyChips re xs (drop (Suc j) rd))"
      by auto
    with True j show ?thesis
      by (simp add: dj bodyChips_def patchReaders_def)
  next
    case False
    let ?rd = "rd[i := rd ! j]"
    have d: "drop (Suc j) ?rd = drop (Suc j) rd"
      using Cons.prems by simp
    have t: "take (Suc i) ?rd = take i rd @ [rd ! j]"
      using i by (simp add: take_Suc_conv_app_nth)
    from Cons.IH [of "Suc j" ?rd "Suc i" patches "roms @ [x]"] Cons.prems
    obtain rd' where
      "splitLoop re xs (Suc j) (Suc i) ?rd patches (roms @ [x]) =
         Inr (Suc i + length (bodyChips re xs (drop (Suc j) ?rd)), rd',
              patches @ patchReaders re xs (drop (Suc j) ?rd),
              (roms @ [x]) @ map fst (bodyChips re xs (drop (Suc j) ?rd)))"
      "take (Suc i + length (bodyChips re xs (drop (Suc j) ?rd))) rd' =
         take (Suc i) ?rd @ map snd (bodyChips re xs (drop (Suc j) ?rd))"
      by auto
    with False j show ?thesis
      by (simp add: dj d t bodyChips_def patchReaders_def)
  qed
qed

lemma commonPReader_char:
  "commonPReader a readers re =
     (if length readers < length (rom a) then Inl Panic
      else case bodyChips re (rom a) readers of
             [] \<Rightarrow> Inl Panic
           | (r0, c0) # rest \<Rightarrow>
               if rom_size r0 = of_nat twoMB \<and> length c0 < oneMB then Inl (Err EOF)
               else if length ((if rom_size r0 = of_nat twoMB
                                then drop oneMB c0 @ take oneMB c0 else c0) @ concat (map snd rest))
                         < length (concat (patchReaders re (rom a) readers))
               then Inl (Err EOF)
               else Inr (concat (patchReaders re (rom a) readers) @
                         drop (length (concat (patchReaders re (rom a) readers)))
                           ((if rom_size r0 = of_nat twoMB
                             then drop oneMB c0 @ take oneMB c0 else c0) @ concat (map snd rest))))"
proof (cases "length readers < length (rom a)")
  case True
  then show ?thesis
    by (simp add: commonPReader_def splitLoop_Panic)
next
  case False
  then have "0 + length (rom a) \<le> length readers" by simp
  from splitLoop_Inr [OF this, of 0 re "[]" "[]"]
  obtain rd' where
    s: "splitLoop re (rom a) 0 0 readers [] [] =
         Inr (length (bodyChips re (rom a) readers), rd',
              patchReaders re (rom a) readers, map fst (bodyChips re (rom a) readers))"
    and t: "take (length (bodyChips re (rom a) readers)) rd' = map snd (bodyChips re (rom a) readers)"
    by auto
  show ?thesis
  proof (cases "bodyChips re (rom a) readers")
    case Nil
    with False s t show ?thesis
      by (simp add: commonPReader_def swapFirst_def)
  next
    case (Cons p rest)
    obtain r0 c0 where p: "p = (r0, c0)" by (cases p)
    with False s t Cons show ?thesis
      by (auto simp: commonPReader_def swapFirst_def CopyN_def Let_def min_def)
  qed
qed

lemma no_patch_bytes:
  "re = None \<or> (\<forall>x\<in>set (rom a). \<not> isPatch re x) \<Longrightarrow> patchBytes re a readers = []"
  by (auto simp: patchBytes_def patchReaders_def isPatch_def filter_empty_conv dest: set_zip_leftD)

lemma isPatch_ep_p1: "\<not> isPatch re_ep \<lparr>filename = ''rom.p1'', rom_size = n, crc = c\<rparr>"
  by (simp add: isPatch_def re_ep_def)

lemma isPatch_ep_ep1: "isPatch re_ep \<lparr>filename = ''rom.ep1'', rom_size = n, crc = c\<rparr>"
  by (simp add: isPatch_def re_ep_def)

text \<open>
  C1 (amended). For a program-area chip list with matching streams (one reader per chip,
  each as long as its chip declares) and at least one body chip: when the patch buffer,
  of length \<open>L\<close>, is no longer than the corrected body concatenation,
  \<^verbatim>\<open>commonPReader\<close> returns the patch bytes followed by the corrected body
  without its first \<open>L\<close> bytes, and with no patch chip (or a nil pattern) it returns
  the corrected body itself; when the patch is longer than the body, the discarding
  \<^verbatim>\<open>io.CopyN\<close> reports end of file and the call returns that error.
\<close>

theorem patched_concat_overlay:
  assumes count: "length readers = length (rom a)"
    and sizes: "\<forall>(x, r)\<in>set (zip (rom a) readers). length r = unat (rom_size x)"
    and body: "bodyChips re (rom a) readers \<noteq> []"
  shows "if length (patchBytes re a readers) \<le> length (correctedBody re a readers)
         then \<exists>out. commonPReader a readers re = Inr out \<and>
                take (length (patchBytes re a readers)) out = patchBytes re a readers \<and>
                drop (length (patchBytes re a readers)) out =
                  drop (length (patchBytes re a readers)) (correctedBody re a readers) \<and>
                ((re = None \<or> (\<forall>x\<in>set (rom a). \<not> isPatch re x)) \<longrightarrow>
                   out = correctedBody re a readers)
         else commonPReader a readers re = Inl (Err EOF)"
proof -
  from body obtain r0 c0 rest where b: "bodyChips re (rom a) readers = (r0, c0) # rest"
    by (cases "bodyChips re (rom a) readers") auto
  then have "(r0, c0) \<in> set (zip (rom a) readers)"
    by (metis bodyChips_def filter_is_subset list.set_intros(1) subsetD)
  with sizes have len: "length c0 = unat (rom_size r0)" by auto
  have big: "\<not> (rom_size r0 = of_nat twoMB \<and> length c0 < oneMB)"
    using len by (auto simp: twoMB_def oneMB_def)
  show ?thesis
  proof (cases "length (patchBytes re a readers) \<le> length (correctedBody re a readers)")
    case True
    with b big count have
      "commonPReader a readers re =
         Inr (patchBytes re a readers @
              drop (length (patchBytes re a readers)) (correctedBody re a readers))"
      unfolding commonPReader_char patchBytes_def correctedBody_def by auto
    with True show ?thesis
      using no_patch_bytes [of re a readers] by auto
  next
    case False
    with b big count have "commonPReader a readers re = Inl (Err EOF)"
      unfolding commonPReader_char patchBytes_def correctedBody_def by auto
    with False show ?thesis by simp
  qed
qed

theorem patched_concat_overlay_witness:
  "length [[0, 1, 2, 3, 4, 5, 6, 7], [0xAA, 0xAA :: byte]] =
     length (rom \<lparr>area_size = 8,
                   rom = [\<lparr>filename = ''rom.p1'', rom_size = 8, crc = []\<rparr>,
                          \<lparr>filename = ''rom.ep1'', rom_size = 2, crc = []\<rparr>]\<rparr>) \<and>
   patchBytes re_ep
     \<lparr>area_size = 8,
       rom = [\<lparr>filename = ''rom.p1'', rom_size = 8, crc = []\<rparr>,
              \<lparr>filename = ''rom.ep1'', rom_size = 2, crc = []\<rparr>]\<rparr>
     [[0, 1, 2, 3, 4, 5, 6, 7], [0xAA, 0xAA]] = [0xAA, 0xAA] \<and>
   correctedBody re_ep
     \<lparr>area_size = 8,
       rom = [\<lparr>filename = ''rom.p1'', rom_size = 8, crc = []\<rparr>,
              \<lparr>filename = ''rom.ep1'', rom_size = 2, crc = []\<rparr>]\<rparr>
     [[0, 1, 2, 3, 4, 5, 6, 7], [0xAA, 0xAA]] = [0, 1, 2, 3, 4, 5, 6, 7] \<and>
   commonPReader
     \<lparr>area_size = 8,
       rom = [\<lparr>filename = ''rom.p1'', rom_size = 8, crc = []\<rparr>,
              \<lparr>filename = ''rom.ep1'', rom_size = 2, crc = []\<rparr>]\<rparr>
     [[0, 1, 2, 3, 4, 5, 6, 7], [0xAA, 0xAA]] re_ep = Inr [0xAA, 0xAA, 2, 3, 4, 5, 6, 7]"
proof -
  let ?a = "\<lparr>area_size = 8,
             rom = [\<lparr>filename = ''rom.p1'', rom_size = 8, crc = []\<rparr>,
                    \<lparr>filename = ''rom.ep1'', rom_size = 2, crc = []\<rparr>]\<rparr>"
  let ?rs = "[[0, 1, 2, 3, 4, 5, 6, 7], [0xAA, 0xAA :: byte]]"
  have run: "commonPReader ?a ?rs re_ep = Inr [0xAA, 0xAA, 2, 3, 4, 5, 6, 7]"
    by (simp add: commonPReader_def swapFirst_def CopyN_def isPatch_ep_p1 isPatch_ep_ep1 twoMB_def)
  from patched_concat_overlay [of ?rs ?a re_ep] run show ?thesis
    by (simp add: patchBytes_def correctedBody_def bodyChips_def patchReaders_def
          isPatch_ep_p1 isPatch_ep_ep1 twoMB_def)
qed

text \<open>
  The claim as first stated fails where the patch is longer than the body: a two-byte
  patch chip and a one-byte body chip give an error, not the two patch bytes.
\<close>

theorem patched_concat_overlay_counterexample:
  "commonPReader
     \<lparr>area_size = 3,
       rom = [\<lparr>filename = ''rom.ep1'', rom_size = 2, crc = []\<rparr>,
              \<lparr>filename = ''rom.p1'', rom_size = 1, crc = []\<rparr>]\<rparr>
     [[1, 2], [3]] re_ep = Inl (Err EOF)"
  by (simp add: commonPReader_def swapFirst_def CopyN_def isPatch_ep_p1 isPatch_ep_ep1 twoMB_def)

text \<open>
  C2. Whenever \<^verbatim>\<open>commonPReader\<close> returns an output, it is the patch laid over
  the body concatenation in which the first body chip has its first mebibyte and the
  rest of its content swapped if and only if its declared size is 2097152; with any
  other size the first body chip, and in every case each later body chip, is taken as
  it is. A swapped chip had at least one mebibyte of content.
\<close>

theorem first_body_chip_swap:
  assumes "commonPReader a readers re = Inr out"
    and "bodyChips re (rom a) readers = (r0, c0) # rest"
  shows "out = concat (patchReaders re (rom a) readers) @
               drop (length (concat (patchReaders re (rom a) readers)))
                 ((if rom_size r0 = of_nat twoMB then drop oneMB c0 @ take oneMB c0 else c0) @
                  concat (map snd rest)) \<and>
         (rom_size r0 = of_nat twoMB \<longrightarrow> oneMB \<le> length c0)"
  using assms unfolding commonPReader_char
  by (auto split: if_splits)


theorem first_body_chip_swap_witness:
  "commonPReader
     \<lparr>area_size = 2097152, rom = [\<lparr>filename = ''rom.p1'', rom_size = 2097152, crc = []\<rparr>]\<rparr>
     [replicate 1048576 1 @ replicate 1048576 2] re_ep =
     Inr (replicate 1048576 2 @ replicate 1048576 1) \<and>
   bodyChips re_ep [\<lparr>filename = ''rom.p1'', rom_size = 2097152, crc = []\<rparr>]
     [replicate 1048576 1 @ replicate 1048576 2] =
     [(\<lparr>filename = ''rom.p1'', rom_size = 2097152, crc = []\<rparr>,
       replicate 1048576 1 @ replicate 1048576 2)] \<and>
   rom_size \<lparr>filename = ''rom.p1'', rom_size = 2097152, crc = []\<rparr> = of_nat twoMB \<and>
   oneMB \<le> length (replicate 1048576 (1 :: byte) @ replicate 1048576 2)"
proof -
  let ?r = "\<lparr>filename = ''rom.p1'', rom_size = 2097152, crc = []\<rparr>"
  let ?a = "\<lparr>area_size = 2097152, rom = [?r]\<rparr>"
  let ?c = "replicate 1048576 (1 :: byte) @ replicate 1048576 2"
  have run: "commonPReader ?a [?c] re_ep = Inr (replicate 1048576 2 @ replicate 1048576 1)"
    by (simp add: commonPReader_def swapFirst_def CopyN_def isPatch_ep_p1 twoMB_def oneMB_def)
  have body: "bodyChips re_ep (rom ?a) [?c] = (?r, ?c) # []"
    by (simp add: bodyChips_def isPatch_ep_p1)
  from first_body_chip_swap [OF run body] run body show ?thesis
    by (simp add: twoMB_def oneMB_def)
qed

section \<open>The graphics reader and the padded concatenation\<close>

lemma chip_sel: "filename (chip name n) = name" "rom_size (chip name n) = n"
  by (simp_all add: chip_def)

lemma standIns_sel:
  "interleaveROM standIns = pairInterleave"
  "cmc42GfxDecrypt standIns b k = map (\<lambda>x. x XOR of_int k) b"
  "cmcSfixDecrypt standIns b n = take (nat n) (b @ replicate (nat n) 0)"
  by (simp_all add: standIns_def)

lemma commonCLoop_pairs:
  assumes len: "length readers = 2 * length ims"
    and il: "\<forall>k<length ims. interleaveROM E 1 [readers ! (2 * k), readers ! (2 * k + 1)] = Inr (ims ! k)"
  shows "k \<le> length ims \<Longrightarrow>
         commonCLoop E a readers (2 * k) acc =
           Inr (acc @ map (\<lambda>k. if k + 1 < length ims
                                 then PaddedReader (ims ! k) (sint (padSize a * 2)) 0
                                 else ims ! k) [k..<length ims])"
proof (induction "length ims - k" arbitrary: k acc)
  case 0
  with len show ?case
    by (subst commonCLoop.simps) simp
next
  case (Suc d)
  then have k: "k < length ims" by simp
  with len have i1: "2 * k < length readers" and i2: "2 * k + 1 < length readers" by simp_all
  from il k have im: "interleaveROM E 1 [readers ! (2 * k), readers ! (2 * k + 1)] = Inr (ims ! k)"
    by simp
  have pad: "int (2 * k) < int (length readers) - 2 \<longleftrightarrow> k + 1 < length ims"
    using len by auto
  have d: "d = length ims - (k + 1)" using Suc.hyps(2) by simp
  have step: "2 * k + 2 = 2 * (k + 1)" by simp
  have "commonCLoop E a readers (2 * k) acc =
        commonCLoop E a readers (2 * (k + 1))
          (acc @ [if k + 1 < length ims then PaddedReader (ims ! k) (sint (padSize a * 2)) 0
                  else ims ! k])"
    using i1 i2 im pad by (subst commonCLoop.simps) simp
  also have "\<dots> = Inr ((acc @ [if k + 1 < length ims
                                  then PaddedReader (ims ! k) (sint (padSize a * 2)) 0
                                  else ims ! k]) @
                        map (\<lambda>k. if k + 1 < length ims
                                 then PaddedReader (ims ! k) (sint (padSize a * 2)) 0
                                 else ims ! k) [k + 1..<length ims])"
    using k by (intro Suc.hyps(1) [OF d]) simp
  finally show ?case
    using k by (simp add: upt_conv_Cons)
qed


lemma padSize_foldl:
  "p \<le> foldl (\<lambda>pad r. if rom_size r > pad then rom_size r else pad) p xs \<and>
   (\<forall>r\<in>set xs. rom_size r \<le> foldl (\<lambda>pad r. if rom_size r > pad then rom_size r else pad) p xs) \<and>
   (foldl (\<lambda>pad r. if rom_size r > pad then rom_size r else pad) p xs = p \<or>
    foldl (\<lambda>pad r. if rom_size r > pad then rom_size r else pad) p xs \<in> rom_size ` set xs)"
proof (induction xs arbitrary: p)
  case Nil
  show ?case by simp
next
  case (Cons x xs)
  show ?case
  proof (cases "rom_size x > p")
    case True
    with Cons [of "rom_size x"] show ?thesis
      by (auto intro: order_trans less_imp_le)
  next
    case False
    with Cons [of p] show ?thesis
      by (auto simp: not_less intro: order_trans)
  qed
qed

lemma padSize_max:
  "(\<forall>r\<in>set (rom a). rom_size r \<le> padSize a) \<and>
   (rom a \<noteq> [] \<longrightarrow> padSize a \<in> rom_size ` set (rom a))"
proof -
  from padSize_foldl [of 0 "rom a"]
  have le: "\<forall>r\<in>set (rom a). rom_size r \<le> padSize a"
    and mem: "padSize a = 0 \<or> padSize a \<in> rom_size ` set (rom a)"
    by (simp_all add: padSize_def)
  have "padSize a \<in> rom_size ` set (rom a)" if "rom a \<noteq> []"
  proof (cases "padSize a = 0")
    case False
    with mem show ?thesis by simp
  next
    case True
    from that obtain x where x: "x \<in> set (rom a)" by (cases "rom a") auto
    with le True have "rom_size x = 0" by auto
    with x True show ?thesis by force
  qed
  with le show ?thesis by blast
qed

lemma sint_small:
  assumes "unat (w :: uint64) < 2 ^ 63"
  shows "sint w = int (unat w)"
proof -
  from assms have "int (unat w) < int (2 ^ 63)"
    by (simp only: of_nat_less_iff)
  then have "uint w < 2 ^ 63"
    by simp
  moreover have "- (2 ^ 63) \<le> uint w"
  proof -
    have "- (2 ^ 63) \<le> (0 :: int)" by simp
    also have "0 \<le> uint w" by simp
    finally show ?thesis .
  qed
  ultimately have "signed_take_bit 63 (uint w) = uint w"
    by (intro signed_take_bit_int_eq_self)
  then show ?thesis
    by (simp add: sint_uint)
qed

lemma sint_twice:
  assumes "unat (w :: uint64) < 2 ^ 62"
  shows "nat (sint (w * 2)) = 2 * unat w"
proof -
  from assms have u: "unat (w * 2) = 2 * unat w"
    by (simp add: unat_word_ariths)
  with assms have "unat (w * 2) < 2 ^ 63" by simp
  from sint_small [OF this] have "sint (w * 2) = int (2 * unat w)"
    by (simp only: u)
  then show ?thesis
    by (simp only: nat_int)
qed

text \<open>
  C6 (amended). In \<^verbatim>\<open>commonCReader\<close> consecutive stream pairs are interleaved at
  unit 1, and every pair's result except the last is zero-padded at its end to twice the
  area pad size (the argument is \<^verbatim>\<open>int64(a.padSize()*2)\<close>) before the results
  are concatenated in order. The area pad size is the largest declared chip size of the
  area; below \<open>2\<^sup>6\<^sup>2\<close> doubling it neither wraps nor changes sign.
\<close>

theorem graphics_pairs_padded:
  assumes "length readers = 2 * length ims"
    and "\<forall>k<length ims. interleaveROM E 1 [readers ! (2 * k), readers ! (2 * k + 1)] = Inr (ims ! k)"
  shows "commonCReader E a readers =
           Inr (concat (map (\<lambda>k. if k + 1 < length ims
                                  then PaddedReader (ims ! k) (sint (padSize a * 2)) 0
                                  else ims ! k) [0..<length ims])) \<and>
         (\<forall>r\<in>set (rom a). rom_size r \<le> padSize a) \<and>
         (rom a \<noteq> [] \<longrightarrow> padSize a \<in> rom_size ` set (rom a)) \<and>
         (unat (padSize a) < 2 ^ 62 \<longrightarrow> nat (sint (padSize a * 2)) = 2 * unat (padSize a))"
proof -
  from commonCLoop_pairs [OF assms, of 0 a "[]"]
  have "commonCReader E a readers =
           Inr (concat (map (\<lambda>k. if k + 1 < length ims
                                  then PaddedReader (ims ! k) (sint (padSize a * 2)) 0
                                  else ims ! k) [0..<length ims]))"
    by (simp add: commonCReader_def)
  with padSize_max [of a] sint_twice [of "padSize a"] show ?thesis
    by blast
qed

lemma isPatch_demo_p1: "\<not> isPatch re_ep (chip ''demo.p1'' n)"
  by (simp add: isPatch_def re_ep_def chip_def)

lemma padSize_1122: "padSize \<lparr>area_size = 6, rom = [chip ''c1'' 1, chip ''c2'' 1, chip ''c3'' 2, chip ''c4'' 2]\<rparr> = 2"
  by (simp add: padSize_def chip_def)

theorem graphics_pairs_padded_witness:
  "commonCReader standIns
     \<lparr>area_size = 6, rom = [chip ''c1'' 1, chip ''c2'' 1, chip ''c3'' 2, chip ''c4'' 2]\<rparr>
     [[1], [2], [3, 4], [5, 6]] = Inr [1, 2, 0, 0, 3, 5, 4, 6] \<and>
   padSize \<lparr>area_size = 6, rom = [chip ''c1'' 1, chip ''c2'' 1, chip ''c3'' 2, chip ''c4'' 2]\<rparr> = 2"
proof -
  let ?a = "\<lparr>area_size = 6, rom = [chip ''c1'' 1, chip ''c2'' 1, chip ''c3'' 2, chip ''c4'' 2]\<rparr>"
  let ?rs = "[[1], [2], [3, 4], [5, 6 :: byte]]"
  let ?ims = "[[1, 2], [3, 5, 4, 6 :: byte]]"
  have len: "length ?rs = 2 * length ?ims" by simp
  have il: "\<forall>k<length ?ims. interleaveROM standIns 1 [?rs ! (2 * k), ?rs ! (2 * k + 1)] = Inr (?ims ! k)"
    by (simp add: standIns_def pairInterleave_def less_Suc_eq)
  have up: "[0..<2] = [0, 1]" by (simp add: upt_conv_Cons)
  have z: "replicate 2 (0 :: byte) = [0, 0]" by (simp add: numeral_2_eq_2)
  from graphics_pairs_padded [OF len il, of ?a] show ?thesis
    by (simp add: padSize_1122 up z PaddedReader_def)
qed

text \<open>
  Padding to the pad size itself, as the claim was first stated, would leave the first
  pair below unpadded; the source pads it to four bytes.
\<close>

theorem graphics_pairs_padded_counterexample:
  "commonCReader standIns
     \<lparr>area_size = 6, rom = [chip ''c1'' 1, chip ''c2'' 1, chip ''c3'' 2, chip ''c4'' 2]\<rparr>
     [[1], [2], [3, 4], [5, 6]] = Inr [1, 2, 0, 0, 3, 5, 4, 6] \<and>
   PaddedReader [1, 2]
     (sint (padSize \<lparr>area_size = 6, rom = [chip ''c1'' 1, chip ''c2'' 1, chip ''c3'' 2, chip ''c4'' 2]\<rparr>)) 0
     @ [3, 5, 4, 6] = [1, 2, 3, 5, 4, 6]"
  by (simp add: commonCReader_def commonCLoop.simps standIns_def pairInterleave_def
        padSize_1122 PaddedReader_def numeral_2_eq_2)



section \<open>The SMA passes\<close>

lemma bitswapInt_snoc:
  "bitswapInt v (order @ [b]) = 2 * bitswapInt v order + of_bool (bit v b)"
  by (simp add: bitswapInt_def)

lemma bitswapInt_append:
  "bitswapInt v (xs @ ys) = bitswapInt v xs * 2 ^ length ys + bitswapInt v ys"
proof (induction ys rule: rev_induct)
  case Nil
  show ?case by (simp add: bitswapInt_def)
next
  case (snoc b ys)
  have "bitswapInt v (xs @ ys @ [b]) = 2 * bitswapInt v (xs @ ys) + of_bool (bit v b)"
    using bitswapInt_snoc [of v "xs @ ys" b] by simp
  with snoc show ?case
    by (simp add: bitswapInt_snoc algebra_simps)
qed

lemma bitswapInt_less: "bitswapInt v order < 2 ^ length order"
proof (induction order rule: rev_induct)
  case Nil
  show ?case by (simp add: bitswapInt_def)
next
  case (snoc b order)
  have "bitswapInt v (order @ [b]) = 2 * bitswapInt v order + of_bool (bit v b)"
    by (simp add: bitswapInt_def)
  with snoc show ?case by (cases "bit v b") auto
qed

lemma bitswapInt_clear:
  "\<forall>b\<in>set order. \<not> bit v b \<Longrightarrow> bitswapInt v order = 0"
  by (induction order rule: rev_induct) (auto simp: bitswapInt_def)

lemma bit_nat_small: "v < 2 ^ m \<Longrightarrow> m \<le> b \<Longrightarrow> \<not> bit (v::nat) b"
  by (metis bit_take_bit_iff not_le take_bit_nat_eq_self_iff)

lemma bitswapInt_fixed_top:
  assumes "v < 2 ^ m" and "\<forall>b\<in>set hi. m \<le> b"
  shows "bitswapInt v (hi @ low) < 2 ^ length low"
proof -
  have "bitswapInt v hi = 0"
    using assms by (intro bitswapInt_clear) (auto dest: bit_nat_small)
  then show ?thesis
    by (simp add: bitswapInt_append bitswapInt_less)
qed

lemma dataLoop_Panic:
  "i < n \<Longrightarrow> length prg < n + 0x080000 \<Longrightarrow> dataLoop order i n prg = Inl Panic"
proof (induction order i n prg rule: dataLoop.induct)
  case (1 order i n prg)
  show ?case
  proof (cases "i + 0x080000 < length prg")
    case True
    with "1.prems" have "i + 1 < n" by simp
    with "1.IH" [OF "1.prems"(1) True] "1.prems" True show ?thesis
      by (subst dataLoop.simps) simp
  next
    case False
    with "1.prems" show ?thesis
      by (subst dataLoop.simps) simp
  qed
qed

lemma dataLoop_Inr:
  "i \<le> n \<Longrightarrow> n + 0x080000 \<le> length prg \<Longrightarrow>
   \<exists>prg'. dataLoop order i n prg = Inr prg' \<and> length prg' = length prg \<and>
     (\<forall>k<length prg. prg' ! k =
        (if i + 0x080000 \<le> k \<and> k < n + 0x080000 then bitswapUint16 (prg ! k) order
         else prg ! k))"
proof (induction order i n prg rule: dataLoop.induct)
  case (1 order i n prg)
  show ?case
  proof (cases "i < n")
    case False
    with "1.prems" show ?thesis
      by (subst dataLoop.simps) auto
  next
    case True
    with "1.prems" have inb: "i + 0x080000 < length prg" by simp
    let ?p = "prg[i + 0x080000 := bitswapUint16 (prg ! (i + 0x080000)) order]"
    from "1.IH" [OF True inb] True "1.prems"
    obtain prg' where r: "dataLoop order (i + 1) n ?p = Inr prg'"
      and l: "length prg' = length ?p"
      and c: "\<forall>k<length ?p. prg' ! k =
                (if i + 1 + 0x080000 \<le> k \<and> k < n + 0x080000 then bitswapUint16 (?p ! k) order
                 else ?p ! k)"
      by auto
    have "dataLoop order i n prg = Inr prg'"
      using True inb r by (subst dataLoop.simps) simp
    moreover have "length prg' = length prg"
      using l by simp
    moreover have "\<forall>k<length prg. prg' ! k =
        (if i + 0x080000 \<le> k \<and> k < n + 0x080000 then bitswapUint16 (prg ! k) order
         else prg ! k)"
    proof (intro allI impI)
      fix k assume k: "k < length prg"
      show "prg' ! k =
        (if i + 0x080000 \<le> k \<and> k < n + 0x080000 then bitswapUint16 (prg ! k) order
         else prg ! k)"
      proof (cases "k = i + 0x080000")
        case True
        with c k \<open>i < n\<close> show ?thesis by simp
      next
        case False
        with c k show ?thesis by (auto simp: nth_list_update)
      qed
    qed
    ultimately show ?thesis by blast
  qed
qed

lemma addrLoop_Inr:
  "i \<le> n \<Longrightarrow> n \<le> base \<Longrightarrow> \<forall>k<n. base + bitswapInt k order < length prg \<Longrightarrow>
   \<exists>prg'. addrLoop base order i n prg = Inr prg' \<and> length prg' = length prg \<and>
     (\<forall>k<length prg. prg' ! k =
        (if i \<le> k \<and> k < n then prg ! (base + bitswapInt k order) else prg ! k))"
proof (induction base order i n prg rule: addrLoop.induct)
  case (1 base order i n prg)
  show ?case
  proof (cases "i < n")
    case False
    with "1.prems" show ?thesis
      by (subst addrLoop.simps) auto
  next
    case True
    with "1.prems" have src: "base + bitswapInt i order < length prg" by simp
    from src True "1.prems"(2) have dst: "i < length prg" by linarith
    let ?p = "prg[i := prg ! (base + bitswapInt i order)]"
    have "\<forall>k<n. base + bitswapInt k order < length ?p"
      using "1.prems" by simp
    with "1.IH" [of] True src dst "1.prems"
    obtain prg' where r: "addrLoop base order (i + 1) n ?p = Inr prg'"
      and l: "length prg' = length ?p"
      and c: "\<forall>k<length ?p. prg' ! k =
                (if i + 1 \<le> k \<and> k < n then ?p ! (base + bitswapInt k order) else ?p ! k)"
      by auto
    have "addrLoop base order i n prg = Inr prg'"
      using True src dst r by (subst addrLoop.simps) simp
    moreover have "length prg' = length prg"
      using l by simp
    moreover have "\<forall>k<length prg. prg' ! k =
        (if i \<le> k \<and> k < n then prg ! (base + bitswapInt k order) else prg ! k)"
    proof (intro allI impI)
      fix k assume k: "k < length prg"
      have far: "i \<noteq> base + bitswapInt k' order" for k'
        using True "1.prems"(2) by linarith
      show "prg' ! k = (if i \<le> k \<and> k < n then prg ! (base + bitswapInt k order) else prg ! k)"
      proof (cases "k = i")
        case True
        with c k dst \<open>i < n\<close> show ?thesis by simp
      next
        case False
        with c k far show ?thesis by (auto simp: nth_list_update)
      qed
    qed
    ultimately show ?thesis by blast
  qed
qed

lemma blockInner_Inr:
  "j \<le> m \<Longrightarrow> i + m + 0x080000 \<le> length prg \<Longrightarrow> \<forall>k<m. bitswapInt k order < length buf \<Longrightarrow>
   \<exists>prg'. blockInner order buf i j m prg = Inr prg' \<and> length prg' = length prg"
proof (induction order buf i j m prg rule: blockInner.induct)
  case (1 order buf i j m prg)
  show ?case
  proof (cases "j < m")
    case False
    then show ?thesis
      by (subst blockInner.simps) simp
  next
    case True
    with "1.prems" have ok: "bitswapInt j order < length buf \<and> i + j + 0x080000 < length prg"
      by simp
    from "1.IH" [OF True ok] True "1.prems"
    obtain prg' where
      "blockInner order buf i (j + 1) m (prg[i + j + 0x080000 := buf ! bitswapInt j order]) = Inr prg'"
      "length prg' = length prg"
      by auto
    with True ok show ?thesis
      by (subst blockInner.simps) simp
  qed
qed

lemma length_copy: "length (copy dst src) = length dst"
  by (simp add: copy_def)

lemma blockLoop_Inr:
  "bs dvd i \<Longrightarrow> bs dvd n \<Longrightarrow> i \<le> n \<Longrightarrow> n + 0x080000 \<le> length prg \<Longrightarrow>
   \<forall>k<bs. bitswapInt k order < bs \<Longrightarrow>
   \<exists>prg'. blockLoop order bs i n prg = Inr prg' \<and> length prg' = length prg"
proof (induction order bs i n prg rule: blockLoop.induct)
  case (1 order bs i n prg)
  note dvd_i = "1.prems"(1) and dvd_n = "1.prems"(2) and le = "1.prems"(3)
    and len = "1.prems"(4) and bound = "1.prems"(5)
  show ?case
  proof (cases "i < n \<and> 0 < bs")
    case False
    then show ?thesis
      by (subst blockLoop.simps) auto
  next
    case True
    from dvd_i dvd_n have "bs dvd n - i" by simp
    moreover from True have "0 < n - i" by simp
    ultimately have "bs \<le> n - i" by (rule dvd_imp_le)
    with True have step: "i + bs \<le> n" by linarith
    with len have sl: "i + 0x080000 \<le> length prg" by linarith
    let ?buf = "copy (replicate bs 0) (drop (i + 0x080000) prg)"
    have "\<exists>prg1. blockInner order ?buf i 0 bs prg = Inr prg1 \<and> length prg1 = length prg"
    proof (rule blockInner_Inr)
      show "0 \<le> bs" by simp
      show "i + bs + 0x080000 \<le> length prg" using step len by linarith
      show "\<forall>k<bs. bitswapInt k order < length ?buf" using bound by (simp add: length_copy)
    qed
    then obtain prg1 where inner: "blockInner order ?buf i 0 bs prg = Inr prg1"
      and l1: "length prg1 = length prg"
      by blast
    have "\<exists>prg'. blockLoop order bs (i + bs) n prg1 = Inr prg' \<and> length prg' = length prg1"
    proof (rule "1.IH" [OF True sl inner])
      show "bs dvd i + bs" using dvd_i by simp
      show "bs dvd n" by (rule dvd_n)
      show "i + bs \<le> n" by (rule step)
      show "n + 0x080000 \<le> length prg1" using len l1 by simp
      show "\<forall>k<bs. bitswapInt k order < bs" by (rule bound)
    qed
    then obtain prg' where "blockLoop order bs (i + bs) n prg1 = Inr prg'" "length prg' = length prg"
      using l1 by auto
    with True sl inner show ?thesis
      by (subst blockLoop.simps) simp
  qed
qed

lemma addrOrder_bound: "i < 0x60000 \<Longrightarrow> bitswapInt i (addrOrder t) < 0x080000"
  using bitswapInt_fixed_top [of i 19 "take 5 (addrOrder t)" "drop 5 (addrOrder t)"]
  by (cases t) simp_all

lemma blockOrder_bound:
  assumes "j < blockSize t"
  shows "bitswapInt j (blockOrder t) < blockSize t"
proof (cases t)
  case Garou
  with assms show ?thesis
    using bitswapInt_fixed_top [of j 14 "take 10 (blockOrder t)" "drop 10 (blockOrder t)"] by simp
next
  case Garouh
  with assms show ?thesis
    using bitswapInt_fixed_top [of j 14 "take 10 (blockOrder t)" "drop 10 (blockOrder t)"] by simp
next
  case Kof2000
  with assms show ?thesis
    using bitswapInt_fixed_top [of j 10 "take 14 (blockOrder t)" "drop 14 (blockOrder t)"] by simp
next
  case Kof99
  with assms show ?thesis
    using bitswapInt_fixed_top [of j 10 "take 14 (blockOrder t)" "drop 14 (blockOrder t)"] by simp
next
  case Mslug3
  with assms show ?thesis
    using bitswapInt_fixed_top [of j 15 "take 9 (blockOrder t)" "drop 9 (blockOrder t)"] by simp
next
  case Mslug3a
  with assms show ?thesis
    using bitswapInt_fixed_top [of j 15 "take 9 (blockOrder t)" "drop 9 (blockOrder t)"] by simp
qed

lemma length_bytesToUint16Slice: "length (bytesToUint16Slice b) = length b div 2"
  by (induction b rule: bytesToUint16Slice.induct) simp_all

lemma dataPass_Inr:
  assumes "0x480000 \<le> length prg"
  shows "\<exists>p1. dataPass t prg = Inr p1 \<and> length p1 = length prg \<and>
           (\<forall>k<length prg. p1 ! k =
              (if 0x080000 \<le> k \<and> k < 0x480000 then bitswapUint16 (prg ! k) (dataOrder t)
               else prg ! k))"
  using dataLoop_Inr [of 0 "0x800000 div 2" prg "dataOrder t"] assms
  by (simp add: dataPass_def)

lemma dataPass_Panic: "length prg < 0x480000 \<Longrightarrow> dataPass t prg = Inl Panic"
  using dataLoop_Panic [of 0 "0x800000 div 2" prg "dataOrder t"]
  by (simp add: dataPass_def)

lemma addrBase_range: "0x60000 \<le> addrBase t \<and> addrBase t + 0x080000 \<le> 0x480000"
  by (cases t) simp_all

lemma addrPass_Inr:
  assumes "0x480000 \<le> length prg"
  shows "\<exists>p'. addrPass t prg = Inr p' \<and> length p' = length prg \<and>
           (\<forall>k<length prg. p' ! k =
              (if k < 0x60000 then prg ! (addrBase t + bitswapInt k (addrOrder t)) else prg ! k))"
proof -
  have src: "\<forall>k<0xc0000 div 2. addrBase t + bitswapInt k (addrOrder t) < length prg"
  proof (intro allI impI)
    fix k :: nat assume "k < 0xc0000 div 2"
    then have "bitswapInt k (addrOrder t) < 0x080000"
      by (intro addrOrder_bound) simp
    with addrBase_range [of t] assms show "addrBase t + bitswapInt k (addrOrder t) < length prg"
      by linarith
  qed
  have "0xc0000 div 2 \<le> addrBase t"
    using addrBase_range [of t] by simp
  from addrLoop_Inr [OF _ this src, of 0] show ?thesis
    by (simp add: addrPass_def)
qed

lemma block_range: "blockSize t dvd blockEnd t \<and> blockEnd t + 0x080000 \<le> 0x480000"
  by (cases t) simp_all

lemma blockPass_Inr:
  assumes "0x480000 \<le> length prg"
  shows "\<exists>p'. blockPass t prg = Inr p' \<and> length p' = length prg"
  unfolding blockPass_def
proof (rule blockLoop_Inr)
  show "blockSize t dvd 0" by simp
  show "blockSize t dvd blockEnd t" using block_range [of t] by simp
  show "0 \<le> blockEnd t" by simp
  show "blockEnd t + 0x080000 \<le> length prg" using block_range [of t] assms by linarith
  show "\<forall>k<blockSize t. bitswapInt k (blockOrder t) < blockSize t"
    by (simp add: blockOrder_bound)
qed

lemma smaDescramble_Inr:
  assumes "0x480000 \<le> length prg" and p1: "dataPass t prg = Inr p1" and l1: "length p1 = length prg"
  shows "\<exists>p2 out.
           (addrPass t p1 = Inr p2 \<and> blockPass t p2 = Inr out \<or>
            blockPass t p1 = Inr p2 \<and> addrPass t p2 = Inr out) \<and>
           smaDescramble t prg = Inr out \<and> length out = length prg"
proof -
  from l1 assms have big1: "0x480000 \<le> length p1" by simp
  show ?thesis
  proof (cases "t = Kof2000 \<or> t = Kof99")
    case False
    from addrPass_Inr [OF big1, of t] obtain p2 where
      p2: "addrPass t p1 = Inr p2" and l2: "length p2 = length p1" by blast
    from l2 big1 have "0x480000 \<le> length p2" by simp
    from blockPass_Inr [OF this, of t] obtain out where
      out: "blockPass t p2 = Inr out" and l3: "length out = length p2" by blast
    from False p1 p2 out have "smaDescramble t prg = Inr out"
      by (cases t) (simp_all add: andThen_def)
    with p2 out l1 l2 l3 show ?thesis by auto
  next
    case True
    from blockPass_Inr [OF big1, of t] obtain p2 where
      p2: "blockPass t p1 = Inr p2" and l2: "length p2 = length p1" by blast
    from l2 big1 have "0x480000 \<le> length p2" by simp
    from addrPass_Inr [OF this, of t] obtain out where
      out: "addrPass t p2 = Inr out" and l3: "length out = length p2" by blast
    from True p1 p2 out have "smaDescramble t prg = Inr out"
      by (auto simp: andThen_def)
    with p2 out l1 l2 l3 show ?thesis by auto
  qed
qed

lemma smaDescramble_Panic:
  "length prg < 0x480000 \<Longrightarrow> smaDescramble t prg = Inl Panic"
  by (cases t) (simp_all add: andThen_def dataPass_Panic)

lemma smaProgram_Panic:
  "length (concat readers) < 0x840000 \<Longrightarrow> smaProgram t a readers = Inl Panic"
proof -
  assume "length (concat readers) < 0x840000"
  then have "length (bytesToUint16Slice (replicate 0xc0000 0 @ concat readers)) < 0x480000"
    by (simp add: length_bytesToUint16Slice)
  then show ?thesis
    by (simp add: smaProgram_def smaPReader_def andThen_def smaDescramble_Panic)
qed

lemma smaProgram_Inr:
  assumes "0x840000 \<le> length (concat readers)"
  shows "\<exists>out. smaProgram t a readers = Inr out"
proof -
  let ?prg = "bytesToUint16Slice (replicate 0xc0000 0 @ concat readers)"
  from assms have big: "0x480000 \<le> length ?prg"
    by (simp add: length_bytesToUint16Slice)
  from dataPass_Inr [OF big, of t] obtain p1 where
    "dataPass t ?prg = Inr p1" "length p1 = length ?prg" by blast
  from smaDescramble_Inr [OF big this] obtain out where "smaDescramble t ?prg = Inr out"
    by blast
  then show ?thesis
    by (simp add: smaProgram_def smaPReader_def andThen_def)
qed

text \<open>
  C3. For each of the six SMA titles and every word array: when the array has the
  0x480000 words that the data-line loop indexes, the first pass returns the array in
  which every word from index 0x080000 up to 0x480000 is bit-permuted by the title's
  data order and every other word is as before, and the address pass and the block pass,
  in the order of the title, run on that array and on nothing earlier; their result is
  the result of the whole descrambling. When the array is shorter, the first pass stops
  in a panic and neither later pass runs.
\<close>

theorem data_pass_first:
  "if 0x480000 \<le> length prg
   then \<exists>p1 p2 out.
          dataPass t prg = Inr p1 \<and> length p1 = length prg \<and>
          (\<forall>k<length prg. p1 ! k =
             (if 0x080000 \<le> k \<and> k < 0x480000 then bitswapUint16 (prg ! k) (dataOrder t)
              else prg ! k)) \<and>
          (addrPass t p1 = Inr p2 \<and> blockPass t p2 = Inr out \<or>
           blockPass t p1 = Inr p2 \<and> addrPass t p2 = Inr out) \<and>
          smaDescramble t prg = Inr out
   else dataPass t prg = Inl Panic \<and> smaDescramble t prg = Inl Panic"
proof (cases "0x480000 \<le> length prg")
  case True
  from dataPass_Inr [OF True, of t] obtain p1 where
    p1: "dataPass t prg = Inr p1" and l1: "length p1 = length prg"
    and c1: "\<forall>k<length prg. p1 ! k =
              (if 0x080000 \<le> k \<and> k < 0x480000 then bitswapUint16 (prg ! k) (dataOrder t)
               else prg ! k)"
    by blast
  from smaDescramble_Inr [OF True p1 l1] p1 l1 c1 True show ?thesis
    by (simp only: if_True) blast
next
  case False
  then have "length prg < 0x480000" by simp
  with False show ?thesis
    by (simp only: if_False dataPass_Panic smaDescramble_Panic simp_thms)
qed

theorem data_pass_first_witness:
  "0x480000 \<le> length (replicate 0x480000 (0 :: uint16)) \<and>
   (\<exists>p1 p2 out.
      dataPass Kof2000 (replicate 0x480000 0) = Inr p1 \<and>
      p1 ! 0x080000 = bitswapUint16 0 (dataOrder Kof2000) \<and>
      (addrPass Kof2000 p1 = Inr p2 \<and> blockPass Kof2000 p2 = Inr out \<or>
       blockPass Kof2000 p1 = Inr p2 \<and> addrPass Kof2000 p2 = Inr out) \<and>
      smaDescramble Kof2000 (replicate 0x480000 0) = Inr out)"
proof -
  have len: "0x480000 \<le> length (replicate 0x480000 (0 :: uint16))" by simp
  from data_pass_first [of "replicate 0x480000 0" Kof2000] len
  obtain p1 p2 out where
    "dataPass Kof2000 (replicate 0x480000 0) = Inr p1"
    "\<forall>k<length (replicate 0x480000 (0 :: uint16)). p1 ! k =
        (if 0x080000 \<le> k \<and> k < 0x480000
         then bitswapUint16 (replicate 0x480000 0 ! k) (dataOrder Kof2000)
         else replicate 0x480000 0 ! k)"
    "addrPass Kof2000 p1 = Inr p2 \<and> blockPass Kof2000 p2 = Inr out \<or>
     blockPass Kof2000 p1 = Inr p2 \<and> addrPass Kof2000 p2 = Inr out"
    "smaDescramble Kof2000 (replicate 0x480000 0) = Inr out"
    by (simp only: if_True) blast
  moreover from this(2) have "p1 ! 0x080000 = bitswapUint16 0 (dataOrder Kof2000)"
    by simp
  ultimately show ?thesis using len by blast
qed

text \<open>
  C4. For each of the six SMA titles, on a word array of at least 0x480000 words (what
  the first pass requires), the address pass writes at every destination index \<open>i\<close>
  below 0xC0000/2 the word that stood at index base + bitswapInt(i, order) before the
  pass, where base is the title's offset in words and order its 24-element address
  order; it leaves every other word as it was.
\<close>

theorem address_descramble:
  assumes "0x480000 \<le> length prg"
  shows "\<exists>p'. addrPass t prg = Inr p' \<and> length p' = length prg \<and>
           (\<forall>i<0xC0000 div 2. p' ! i = prg ! (addrBase t + bitswapInt i (addrOrder t))) \<and>
           (\<forall>k. 0xC0000 div 2 \<le> k \<and> k < length prg \<longrightarrow> p' ! k = prg ! k) \<and>
           length (addrOrder t) = 24"
proof -
  from addrPass_Inr [OF assms, of t] obtain p' where
    r: "addrPass t prg = Inr p'" and l: "length p' = length prg"
    and c: "\<forall>k<length prg. p' ! k =
              (if k < 0x60000 then prg ! (addrBase t + bitswapInt k (addrOrder t)) else prg ! k)"
    by blast
  have "\<forall>i<0xC0000 div 2. p' ! i = prg ! (addrBase t + bitswapInt i (addrOrder t))"
    using c assms by simp
  moreover have "\<forall>k. 0xC0000 div 2 \<le> k \<and> k < length prg \<longrightarrow> p' ! k = prg ! k"
    using c by simp
  moreover have "length (addrOrder t) = 24"
    by (cases t) simp_all
  ultimately show ?thesis using r l by blast
qed

theorem address_descramble_witness:
  "0x480000 \<le> length (replicate 0x480000 (7 :: uint16)) \<and>
   (\<exists>p'. addrPass Garou (replicate 0x480000 7) = Inr p' \<and>
          length p' = 0x480000 \<and> p' ! 5 = 7 \<and> length (addrOrder Garou) = 24)"
proof -
  have len: "0x480000 \<le> length (replicate 0x480000 (7 :: uint16))" by simp
  from address_descramble [OF len, of Garou] obtain p' where
    r: "addrPass Garou (replicate 0x480000 7) = Inr p'"
    and l: "length p' = length (replicate 0x480000 (7 :: uint16))"
    and c: "\<forall>i<0xC0000 div 2. p' ! i =
              replicate 0x480000 7 ! (addrBase Garou + bitswapInt i (addrOrder Garou))"
    and o: "length (addrOrder Garou) = 24"
    by blast
  have "bitswapInt 5 (addrOrder Garou) < 0x080000"
    by (intro addrOrder_bound) simp
  then have "addrBase Garou + bitswapInt 5 (addrOrder Garou) < 0x480000"
    by simp
  with c have "p' ! 5 = 7" by simp
  with r l o len show ?thesis by auto
qed

text \<open>
  C9 (amended). For each of the six SMA titles the program area is computed without any
  reported error. When the chips hold fewer than 0x840000 bytes, so that the expanded
  array has fewer than 0x480000 words, the first index past the end is caught by the
  bounds check of the run time and the method stops in a panic; it does not return an
  error value. With 0x840000 bytes or more every index of the three passes is in range
  and the area is produced. No access is unchecked.
\<close>

theorem sma_bounds:
  "(length (concat readers) < 0x840000 \<longrightarrow> smaProgram t a readers = Inl Panic) \<and>
   (0x840000 \<le> length (concat readers) \<longrightarrow> (\<exists>out. smaProgram t a readers = Inr out)) \<and>
   \<not> reported (smaProgram t a readers)"
proof (cases "length (concat readers) < 0x840000")
  case True
  with smaProgram_Panic [OF True, of t a] show ?thesis
    by (simp add: reported_def)
next
  case False
  then have "0x840000 \<le> length (concat readers)" by simp
  from smaProgram_Inr [OF this, of t a] False show ?thesis
    by (auto simp: reported_def)
qed

theorem sma_bounds_witness:
  "length (concat [[1, 2, 3, 4 :: byte]]) < 0x840000 \<and>
   smaProgram Garou \<lparr>area_size = 0x840000, rom = [chip ''kf.neo-sma'' 0x840000]\<rparr>
     [[1, 2, 3, 4]] = Inl Panic \<and>
   0x840000 \<le> length (concat [replicate 0x840000 (0 :: byte)]) \<and>
   (\<exists>out. smaProgram Garou \<lparr>area_size = 0x840000, rom = [chip ''kf.neo-sma'' 0x840000]\<rparr>
      [replicate 0x840000 0] = Inr out)"
  using sma_bounds
      [of "[[1, 2, 3, 4]]" Garou "\<lparr>area_size = 0x840000, rom = [chip ''kf.neo-sma'' 0x840000]\<rparr>"]
    sma_bounds
      [of "[replicate 0x840000 0]" Garou
          "\<lparr>area_size = 0x840000, rom = [chip ''kf.neo-sma'' 0x840000]\<rparr>"]
  by simp

text \<open>
  The claim as first stated asks for a reported error: a \<^verbatim>\<open>garou\<close> set whose
  program chip is cut to four bytes ends in a panic instead.
\<close>

theorem sma_bounds_counterexample:
  "read garou standIns noFile
     \<lparr>parent = [], area = (\<lambda>i. noArea)(P := \<lparr>area_size = 0x840000, rom = [chip ''kf.neo-sma'' 0x840000]\<rparr>)\<rparr>
     ((\<lambda>i. [])(P := [[1, 2, 3, 4]])) = Inl Panic \<and>
   \<not> reported (read garou standIns noFile
     \<lparr>parent = [], area = (\<lambda>i. noArea)(P := \<lparr>area_size = 0x840000, rom = [chip ''kf.neo-sma'' 0x840000]\<rparr>)\<rparr>
     ((\<lambda>i. [])(P := [[1, 2, 3, 4]])))"
proof -
  have "smaProgram Garou \<lparr>area_size = 0x840000, rom = [chip ''kf.neo-sma'' 0x840000]\<rparr> [[1, 2, 3, 4]] = Inl Panic"
    by (rule smaProgram_Panic) simp
  then show ?thesis
    by (simp add: Areas_def smaCMC42_step_def store_def reported_def)
qed

section \<open>The read methods\<close>

lemma areaLoop_inv:
  assumes step: "\<And>i f f'. step i f = Inr f' \<Longrightarrow> (i = C \<longrightarrow> Q f') \<and> (i \<noteq> C \<longrightarrow> Q f \<longrightarrow> Q f')"
  shows "areaLoop step as f = Inr f' \<Longrightarrow> C \<in> set as \<or> Q f \<Longrightarrow> Q f'"
proof (induction as arbitrary: f)
  case Nil
  then show ?case by simp
next
  case (Cons i as)
  from Cons.prems(1) obtain f1 where s: "step i f = Inr f1" and r: "areaLoop step as f1 = Inr f'"
    by (auto split: sum.splits)
  from step [OF s] Cons.prems(2) have "C \<in> set as \<or> Q f1" by auto
  with Cons.IH [OF r] show ?case .
qed

lemma store_fix:
  "store i r f = Inr f' \<Longrightarrow> i \<noteq> S \<Longrightarrow> i \<noteq> C \<Longrightarrow> ROM f' S = ROM f S \<and> ROM f' C = ROM f C"
  by (auto simp: store_def setROM_def split: sum.splits)

lemma deriveS_fix:
  "ROM (deriveS E g f) S = cmcSfixDecrypt E (ROM (deriveS E g f) C) (sint (area_size (area g S)))"
  by (simp add: deriveS_def setROM_def)

lemma commonCMC42_step_fix:
  assumes "commonCMC42_step E g readers k i f = Inr f'"
  shows "(i = C \<longrightarrow> ROM f' S = cmcSfixDecrypt E (ROM f' C) (sint (area_size (area g S)))) \<and>
         (i \<noteq> C \<longrightarrow> ROM f S = cmcSfixDecrypt E (ROM f C) (sint (area_size (area g S))) \<longrightarrow>
            ROM f' S = cmcSfixDecrypt E (ROM f' C) (sint (area_size (area g S))))"
  using assms
  by (cases i) (auto simp: commonCMC42_step_def deriveS_fix split: sum.splits dest: store_fix)

lemma commonCMC50_step_fix:
  assumes "commonCMC50_step E g readers k i f = Inr f'"
  shows "(i = C \<longrightarrow> ROM f' S = cmcSfixDecrypt E (ROM f' C) (sint (area_size (area g S)))) \<and>
         (i \<noteq> C \<longrightarrow> ROM f S = cmcSfixDecrypt E (ROM f C) (sint (area_size (area g S))) \<longrightarrow>
            ROM f' S = cmcSfixDecrypt E (ROM f' C) (sint (area_size (area g S))))"
  using assms
  by (cases i)
    (auto simp: commonCMC50_step_def deriveS_fix setROM_def split: sum.splits dest: store_fix)

lemma smaCMC42_step_fix:
  assumes "smaCMC42_step E t k g readers i f = Inr f'"
  shows "(i = C \<longrightarrow> ROM f' S = cmcSfixDecrypt E (ROM f' C) (sint (area_size (area g S)))) \<and>
         (i \<noteq> C \<longrightarrow> ROM f S = cmcSfixDecrypt E (ROM f C) (sint (area_size (area g S))) \<longrightarrow>
            ROM f' S = cmcSfixDecrypt E (ROM f' C) (sint (area_size (area g S))))"
  using assms
  by (cases i) (auto simp: smaCMC42_step_def deriveS_fix split: sum.splits dest: store_fix)

lemma kof2000_step_fix:
  assumes "kof2000_step E g readers i f = Inr f'"
  shows "(i = C \<longrightarrow> ROM f' S = cmcSfixDecrypt E (ROM f' C) (sint (area_size (area g S)))) \<and>
         (i \<noteq> C \<longrightarrow> ROM f S = cmcSfixDecrypt E (ROM f C) (sint (area_size (area g S))) \<longrightarrow>
            ROM f' S = cmcSfixDecrypt E (ROM f' C) (sint (area_size (area g S))))"
  using assms
  by (cases i)
    (auto simp: kof2000_step_def deriveS_fix setROM_def split: sum.splits dest: store_fix)

lemma C_in_Areas: "C \<in> set Areas"
  by (simp add: Areas_def)

lemma cmc_fix_derived:
  assumes "r \<in> set cmcFamily" and "read r E f g readers = Inr f'"
  shows "ROM f' S = cmcSfixDecrypt E (ROM f' C) (sint (area_size (area g S)))"
proof -
  let ?Q = "\<lambda>f. ROM f S = cmcSfixDecrypt E (ROM f C) (sint (area_size (area g S)))"
  have a42: "?Q f'" if "commonCMC42Reader E f g readers k = Inr f'" for k
    using areaLoop_inv [of "commonCMC42_step E g readers k" ?Q Areas f f']
      commonCMC42_step_fix [of E g readers k] that C_in_Areas
    by (simp add: commonCMC42Reader_def)
  have a50: "?Q f'" if "commonCMC50Reader E f g readers k = Inr f'" for k
    using areaLoop_inv [of "commonCMC50_step E g readers k" ?Q Areas f f']
      commonCMC50_step_fix [of E g readers k] that C_in_Areas
    by (simp add: commonCMC50Reader_def)
  have s42: "?Q f'" if "areaLoop (smaCMC42_step E t k g readers) Areas f = Inr f'" for t k
    using areaLoop_inv [of "smaCMC42_step E t k g readers" ?Q Areas f f']
      smaCMC42_step_fix [of E t k g readers] that C_in_Areas
    by simp
  have k2000: "?Q f'" if "areaLoop (kof2000_step E g readers) Areas f = Inr f'"
    using areaLoop_inv [of "kof2000_step E g readers" ?Q Areas f f']
      kof2000_step_fix [of E g readers] that C_in_Areas
    by simp
  from assms(1) have "r \<noteq> common" "r \<noteq> fightfeva" "r \<noteq> kof95a" "r \<noteq> pbobblenb"
    by (auto simp: cmcFamily_def)
  with assms(2) a42 a50 s42 k2000 show ?thesis
    by (cases r) simp_all
qed

lemma cmc_ignores_S:
  assumes "r \<in> set cmcFamily"
  shows "read r E f g (readers(S := x)) = read r E f g readers"
proof -
  have "commonCMC42_step E g (readers(S := x)) k = commonCMC42_step E g readers k" for k
    by (intro ext) (simp add: commonCMC42_step_def split: area.splits)
  moreover have "commonCMC50_step E g (readers(S := x)) k = commonCMC50_step E g readers k" for k
    by (intro ext) (simp add: commonCMC50_step_def split: area.splits)
  moreover have "smaCMC42_step E t k g (readers(S := x)) = smaCMC42_step E t k g readers" for t k
    by (intro ext) (simp add: smaCMC42_step_def split: area.splits)
  moreover have "kof2000_step E g (readers(S := x)) = kof2000_step E g readers"
    by (intro ext) (simp add: kof2000_step_def split: area.splits)
  moreover from assms have "r \<noteq> common" "r \<noteq> fightfeva" "r \<noteq> kof95a" "r \<noteq> pbobblenb"
    by (auto simp: cmcFamily_def)
  ultimately show ?thesis
    by (cases r) (simp_all add: commonCMC42Reader_def commonCMC50Reader_def)
qed

lemma areaLoop_cmc:
  assumes sP: "\<And>f. step P f = store P pr f"
    and sS: "\<And>f. step S f = Inr f"
    and sM: "\<And>f. \<exists>m. step M f = Inr (setROM f M m)"
    and sV1: "\<And>f. \<exists>m. step V1 f = Inr (setROM f V1 m)"
    and sV2: "\<And>f. \<exists>m. step V2 f = Inr (setROM f V2 m)"
    and sC: "\<And>f. step C f =
               (case cr of Inl e \<Rightarrow> Inl e | Inr b \<Rightarrow> Inr (deriveS E g (setROM f C (dec b))))"
  shows "case pr of
           Inl e \<Rightarrow> areaLoop step Areas f = Inl e
         | Inr p \<Rightarrow>
             (case cr of
                Inl e \<Rightarrow> areaLoop step Areas f = Inl e
              | Inr b \<Rightarrow>
                  (\<exists>f'. areaLoop step Areas f = Inr f' \<and> ROM f' C = dec b \<and>
                        ROM f' S = cmcSfixDecrypt E (dec b) (sint (area_size (area g S)))))"
proof (cases pr)
  case (Inl e)
  then show ?thesis
    by (simp add: Areas_def sP store_def)
next
  case (Inr p)
  let ?f1 = "setROM f P p"
  from sM [of ?f1] obtain m where m: "step M ?f1 = Inr (setROM ?f1 M m)" by blast
  let ?f2 = "setROM ?f1 M m"
  from sV1 [of ?f2] obtain v1 where v1: "step V1 ?f2 = Inr (setROM ?f2 V1 v1)" by blast
  let ?f3 = "setROM ?f2 V1 v1"
  from sV2 [of ?f3] obtain v2 where v2: "step V2 ?f3 = Inr (setROM ?f3 V2 v2)" by blast
  let ?f4 = "setROM ?f3 V2 v2"
  have run: "areaLoop step Areas f = step C ?f4"
    by (simp add: Areas_def sP sS store_def Inr m v1 v2 split: sum.splits)
  show ?thesis
  proof (cases cr)
    case (Inl e)
    with Inr run show ?thesis by (simp add: sC)
  next
    case b: (Inr b)
    with Inr run show ?thesis
      by (simp add: sC deriveS_def setROM_def)
  qed
qed

lemma store_padded: "\<exists>m. store i (commonPaddedReader a readers) f = Inr (setROM f i m)"
  by (auto simp: store_def commonPaddedReader_def)

lemma cmc42_run:
  "case commonPReader (area g P) (readers P) re_ep of
     Inl e \<Rightarrow> commonCMC42Reader E f g readers k = Inl e
   | Inr p \<Rightarrow>
       (case commonCReader E (area g C) (readers C) of
          Inl e \<Rightarrow> commonCMC42Reader E f g readers k = Inl e
        | Inr b \<Rightarrow>
            (\<exists>f'. commonCMC42Reader E f g readers k = Inr f' \<and>
                  ROM f' C = cmc42GfxDecrypt E b k \<and>
                  ROM f' S = cmcSfixDecrypt E (cmc42GfxDecrypt E b k) (sint (area_size (area g S)))))"
  unfolding commonCMC42Reader_def
  by (rule areaLoop_cmc) (auto simp: commonCMC42_step_def store_padded)

lemma cmc50_run:
  "case commonPReader (area g P) (readers P) re_ep of
     Inl e \<Rightarrow> commonCMC50Reader E f g readers k = Inl e
   | Inr p \<Rightarrow>
       (case commonCReader E (area g C) (readers C) of
          Inl e \<Rightarrow> commonCMC50Reader E f g readers k = Inl e
        | Inr b \<Rightarrow>
            (\<exists>f'. commonCMC50Reader E f g readers k = Inr f' \<and>
                  ROM f' C = cmc50GfxDecrypt E b k \<and>
                  ROM f' S = cmcSfixDecrypt E (cmc50GfxDecrypt E b k) (sint (area_size (area g S)))))"
  unfolding commonCMC50Reader_def
  by (rule areaLoop_cmc) (auto simp: commonCMC50_step_def store_def commonPaddedReader_def)

lemma sma42_run:
  "case smaProgram t (area g P) (readers P) of
     Inl e \<Rightarrow> areaLoop (smaCMC42_step E t k g readers) Areas f = Inl e
   | Inr p \<Rightarrow>
       (case commonCReader E (area g C) (readers C) of
          Inl e \<Rightarrow> areaLoop (smaCMC42_step E t k g readers) Areas f = Inl e
        | Inr b \<Rightarrow>
            (\<exists>f'. areaLoop (smaCMC42_step E t k g readers) Areas f = Inr f' \<and>
                  ROM f' C = cmc42GfxDecrypt E b k \<and>
                  ROM f' S = cmcSfixDecrypt E (cmc42GfxDecrypt E b k) (sint (area_size (area g S)))))"
  by (rule areaLoop_cmc) (auto simp: smaCMC42_step_def store_padded)

lemma kof2000_run:
  "case smaProgram Kof2000 (area g P) (readers P) of
     Inl e \<Rightarrow> areaLoop (kof2000_step E g readers) Areas f = Inl e
   | Inr p \<Rightarrow>
       (case commonCReader E (area g C) (readers C) of
          Inl e \<Rightarrow> areaLoop (kof2000_step E g readers) Areas f = Inl e
        | Inr b \<Rightarrow>
            (\<exists>f'. areaLoop (kof2000_step E g readers) Areas f = Inr f' \<and>
                  ROM f' C = cmc50GfxDecrypt E b kof2000GfxKey \<and>
                  ROM f' S = cmcSfixDecrypt E (cmc50GfxDecrypt E b kof2000GfxKey)
                               (sint (area_size (area g S)))))"
  by (rule areaLoop_cmc) (auto simp: kof2000_step_def store_def commonPaddedReader_def)

lemma cmc_run:
  assumes "r \<in> set cmcFamily"
  shows "case programReader r (area g P) (readers P) of
           Inl e \<Rightarrow> read r E f g readers = Inl e
         | Inr p \<Rightarrow>
             (case commonCReader E (area g C) (readers C) of
                Inl e \<Rightarrow> read r E f g readers = Inl e
              | Inr b \<Rightarrow>
                  (\<exists>f'. read r E f g readers = Inr f' \<and> ROM f' C = gfxDecrypt E r b \<and>
                        ROM f' S = cmcSfixDecrypt E (gfxDecrypt E r b) (sint (area_size (area g S)))))"
proof -
  from assms have "r \<noteq> common" "r \<noteq> fightfeva" "r \<noteq> kof95a" "r \<noteq> pbobblenb"
    by (auto simp: cmcFamily_def)
  then show ?thesis
    apply (cases r; hypsubst; (simp; fail)?)
    unfolding read.simps gfxDecrypt.simps programReader_def smaTitleOf.simps patternOf.simps
      option.case
    by (rule cmc42_run cmc50_run sma42_run kof2000_run)+
qed

text \<open>
  C5. Under every method of the CMC42 and CMC50 families, those of the SMA titles
  included, a run returns an image exactly when its program-area reader and
  \<^verbatim>\<open>commonCReader\<close> on the graphics area return, and fails with the failure of the
  first of the two that fails. The graphics area of the image is the family's graphics
  decryption, under the title's key, of the bytes of \<^verbatim>\<open>commonCReader\<close>, and the
  fix-plane area is the fix-plane derivation of that decrypted graphics area, called
  with the declared size of the fix area (converted to \<^verbatim>\<open>int\<close>, which below
  \<open>2\<^sup>6\<^sup>3\<close> is the size itself). The streams of the fix area are never read: replacing
  them by any others changes nothing of the result, image or failure.
\<close>

theorem fix_plane_always_derived:
  assumes "r \<in> set cmcFamily"
  shows "read r E f g (readers(S := x)) = read r E f g readers \<and>
         (case programReader r (area g P) (readers P) of
            Inl e \<Rightarrow> read r E f g readers = Inl e
          | Inr p \<Rightarrow>
              (case commonCReader E (area g C) (readers C) of
                 Inl e \<Rightarrow> read r E f g readers = Inl e
               | Inr b \<Rightarrow>
                   (\<exists>f'. read r E f g readers = Inr f' \<and> ROM f' C = gfxDecrypt E r b \<and>
                         ROM f' S =
                           cmcSfixDecrypt E (gfxDecrypt E r b) (sint (area_size (area g S)))))) \<and>
         (\<forall>f'. read r E f g readers = Inr f' \<longrightarrow>
            ROM f' S = cmcSfixDecrypt E (ROM f' C) (sint (area_size (area g S)))) \<and>
         (unat (area_size (area g S)) < 2 ^ 63 \<longrightarrow>
            sint (area_size (area g S)) = int (unat (area_size (area g S))))"
proof (intro conjI)
  show "read r E f g (readers(S := x)) = read r E f g readers"
    by (rule cmc_ignores_S [OF assms])
  show "case programReader r (area g P) (readers P) of
            Inl e \<Rightarrow> read r E f g readers = Inl e
          | Inr p \<Rightarrow>
              (case commonCReader E (area g C) (readers C) of
                 Inl e \<Rightarrow> read r E f g readers = Inl e
               | Inr b \<Rightarrow>
                   (\<exists>f'. read r E f g readers = Inr f' \<and> ROM f' C = gfxDecrypt E r b \<and>
                         ROM f' S =
                           cmcSfixDecrypt E (gfxDecrypt E r b) (sint (area_size (area g S)))))"
    by (rule cmc_run [OF assms])
  show "\<forall>f'. read r E f g readers = Inr f' \<longrightarrow>
            ROM f' S = cmcSfixDecrypt E (ROM f' C) (sint (area_size (area g S)))"
    using cmc_fix_derived [OF assms] by blast
  show "unat (area_size (area g S)) < 2 ^ 63 \<longrightarrow>
            sint (area_size (area g S)) = int (unat (area_size (area g S)))"
    using sint_small by blast
qed

lemma demo_P: "commonPReader \<lparr>area_size = 2, rom = [chip ''demo.p1'' 2]\<rparr> [[1, 2]] re_ep = Inr [1, 2]"
  by (simp add: commonPReader_def swapFirst_def CopyN_def isPatch_demo_p1 twoMB_def chip_sel)

lemma demo_C:
  "commonCReader standIns \<lparr>area_size = 4, rom = [chip ''demo.c1'' 2, chip ''demo.c2'' 2]\<rparr>
     [[3, 4], [5, 6]] = Inr [3, 5, 4, 6]"
  by (simp add: commonCReader_def commonCLoop.simps standIns_sel pairInterleave_def)

lemma standIns_cmc50: "cmc50GfxDecrypt standIns b k = map (\<lambda>x. x XOR of_int k) b"
  by (simp add: standIns_def)

theorem fix_plane_always_derived_witness:
  "bangbead \<in> set cmcFamily \<and> kof2001 \<in> set cmcFamily \<and> garou \<in> set cmcFamily \<and>
   kof2000 \<in> set cmcFamily \<and>
   read bangbead standIns noFile demoGame (demoReaders(S := [])) =
     read bangbead standIns noFile demoGame demoReaders \<and>
   (\<exists>f'. read bangbead standIns noFile demoGame demoReaders = Inr f' \<and>
          ROM f' C = [0xFB, 0xFD, 0xFC, 0xFE] \<and> ROM f' S = [0xFB, 0xFD, 0xFC]) \<and>
   (\<exists>f'. read kof2001 standIns noFile demoGame demoReaders = Inr f' \<and>
          ROM f' C = [0x1D, 0x1B, 0x1A, 0x18] \<and> ROM f' S = [0x1D, 0x1B, 0x1A]) \<and>
   (\<exists>f'. read garou standIns noFile smaDemoGame smaDemoReaders = Inr f' \<and>
          ROM f' C = [5, 3, 2, 0] \<and> ROM f' S = [5, 3, 2]) \<and>
   (\<exists>f'. read kof2000 standIns noFile smaDemoGame smaDemoReaders = Inr f' \<and>
          ROM f' C = [3, 5, 4, 6] \<and> ROM f' S = [3, 5, 4]) \<and>
   unat (area_size (area demoGame S)) < 2 ^ 63 \<and>
   sint (area_size (area demoGame S)) = 3"
proof -
  have mem: "bangbead \<in> set cmcFamily" "kof2001 \<in> set cmcFamily" "garou \<in> set cmcFamily"
    "kof2000 \<in> set cmcFamily"
    by (simp_all add: cmcFamily_def)
  have sz: "area_size (area demoGame S) = 3" "area_size (area smaDemoGame S) = 3"
    by (simp_all add: demoGame_def smaDemoGame_def)
  have u: "unat (area_size (area demoGame S)) < 2 ^ 63" by (simp add: sz)
  have t: "take 3 [a, b, c, d] = [a, b, c]" for a b c d :: byte
    by (simp add: numeral_3_eq_3)
  have p: "commonPReader (area demoGame P) (demoReaders P) re_ep = Inr [1, 2]"
    using demo_P by (simp add: demoGame_def demoReaders_def)
  have c: "commonCReader standIns (area demoGame C) (demoReaders C) = Inr [3, 5, 4, 6]"
    using demo_C by (simp add: demoGame_def demoReaders_def)
  have cs: "commonCReader standIns (area smaDemoGame C) (smaDemoReaders C) = Inr [3, 5, 4, 6]"
    using demo_C by (simp add: smaDemoGame_def smaDemoReaders_def)
  have "0x840000 \<le> length (concat (smaDemoReaders P))"
    by (simp add: smaDemoReaders_def)
  from smaProgram_Inr [OF this] obtain pg pk where
    pg: "smaProgram Garou (area smaDemoGame P) (smaDemoReaders P) = Inr pg"
    and pk: "smaProgram Kof2000 (area smaDemoGame P) (smaDemoReaders P) = Inr pk"
    by blast
  from fix_plane_always_derived [OF mem(1), of standIns noFile demoGame demoReaders "[]"] p c
  have b1: "read bangbead standIns noFile demoGame (demoReaders(S := [])) =
              read bangbead standIns noFile demoGame demoReaders"
    and b2: "\<exists>f'. read bangbead standIns noFile demoGame demoReaders = Inr f' \<and>
               ROM f' C = [0xFB, 0xFD, 0xFC, 0xFE] \<and> ROM f' S = [0xFB, 0xFD, 0xFC]"
    and b3: "sint (area_size (area demoGame S)) = 3"
    by (simp_all add: programReader_def standIns_sel bangbeadGfxKey_def sz t)
  from fix_plane_always_derived [OF mem(2), of standIns noFile demoGame demoReaders "[]"] p c
  have k1: "\<exists>f'. read kof2001 standIns noFile demoGame demoReaders = Inr f' \<and>
               ROM f' C = [0x1D, 0x1B, 0x1A, 0x18] \<and> ROM f' S = [0x1D, 0x1B, 0x1A]"
    by (simp add: programReader_def standIns_sel standIns_cmc50 kof2001GfxKey_def sz t)
  from fix_plane_always_derived [OF mem(3), of standIns noFile smaDemoGame smaDemoReaders "[]"] pg cs
  have g1: "\<exists>f'. read garou standIns noFile smaDemoGame smaDemoReaders = Inr f' \<and>
               ROM f' C = [5, 3, 2, 0] \<and> ROM f' S = [5, 3, 2]"
    by (simp add: programReader_def standIns_sel garouGfxKey_def sz t)
  from fix_plane_always_derived [OF mem(4), of standIns noFile smaDemoGame smaDemoReaders "[]"] pk cs
  have k2: "\<exists>f'. read kof2000 standIns noFile smaDemoGame smaDemoReaders = Inr f' \<and>
               ROM f' C = [3, 5, 4, 6] \<and> ROM f' S = [3, 5, 4]"
    by (simp add: programReader_def standIns_sel standIns_cmc50 kof2000GfxKey_def sz t)
  from mem b1 b2 b3 k1 g1 k2 u show ?thesis by blast
qed
















text \<open>
  C10 at its failing input: with no chip and no reader in the program area, the default
  method evaluates \<^verbatim>\<open>roms[0]\<close> on an empty list and stops in a panic.
\<close>

theorem empty_program_area_panics:
  "rom (area noGame P) = [] \<and> noReaders P = [] \<and>
   read common standIns noFile noGame noReaders = Inl Panic"
  by (simp add: Areas_def common_step_def store_def noGame_def noReaders_def noArea_def
        commonPReader_def swapFirst_def)

end
